theory Spec2Isabelle
  imports Complex_Main
begin

section \<open>RunCellpose: a shallow embedding of \<open>cellprofiler/modules/runcellpose.py\<close>\<close>

subsection \<open>Constants of the module\<close>

definition MODEL_NAMES :: "string list" where
  "MODEL_NAMES = [''cyto3'', ''nuclei'', ''cyto2_cp3'', ''tissuenet_cp3'', ''livecell_cp3'',
     ''yeast_PhC_cp3'', ''yeast_BF_cp3'', ''bact_phase_cp3'', ''bact_fluor_cp3'',
     ''deepbacs_cp3'', ''cyto2'', ''cyto'']"

definition DENOISER_NAMES :: "string list" where
  "DENOISER_NAMES = [''denoise_cyto3'', ''deblur_cyto3'', ''upsample_cyto3'',
     ''denoise_nuclei'', ''deblur_nuclei'', ''upsample_nuclei'']"

text \<open>Only these models support size scaling.\<close>

definition SIZED_MODELS :: "string list" where
  "SIZED_MODELS = [''cyto3'', ''cyto2'', ''cyto'', ''nuclei'']"

subsection \<open>Exceptions\<close>

datatype exn =
    ValueError string
  | ZeroDivisionError
  | IndexError
  | AttributeError
  | ProviderError string

subsection \<open>Arrays\<close>

text \<open>A numpy array: its shape and its elements in row-major (C) order.\<close>

record 'a ndarray =
  shape :: "nat list"
  data :: "'a list"

definition wf_array :: "'a ndarray \<Rightarrow> bool" where
  "wf_array a = (length (data a) = prod_list (shape a))"

text \<open>The offset of a multi-index in row-major order, and element access \<open>a[idx]\<close>
  (\<open>None\<close> where numpy raises IndexError).\<close>

fun ravel :: "nat list \<Rightarrow> nat list \<Rightarrow> nat" where
  "ravel (n # s) (i # idx) = i * prod_list s + ravel s idx"
| "ravel _ _ = 0"

definition in_bounds :: "nat list \<Rightarrow> nat list \<Rightarrow> bool" where
  "in_bounds s idx = list_all2 (\<lambda>i n. i < n) idx s"

definition item :: "'a ndarray \<Rightarrow> nat list \<Rightarrow> 'a option" where
  "item a idx = (if in_bounds (shape a) idx then Some (data a ! ravel (shape a) idx) else None)"

text \<open>All multi-indices of a shape, in row-major order.\<close>

fun indices :: "nat list \<Rightarrow> nat list list" where
  "indices [] = [[]]"
| "indices (n # s) = concat (map (\<lambda>i. map ((#) i) (indices s)) [0..<n])"

text \<open>\<open>numpy.zeros_like\<close>.\<close>

definition zeros_like :: "'a::zero ndarray \<Rightarrow> 'a ndarray" where
  "zeros_like a = a\<lparr>data := map (\<lambda>_. 0) (data a)\<rparr>"

text \<open>\<open>numpy.stack(arrays, axis)\<close>: the arrays must have one shape; the new axis of
  length \<open>len(arrays)\<close> is inserted at position \<open>axis\<close> of the result (negative
  values count from the end of the result's axes). Along it, block \<open>j\<close> of the result
  holds block \<open>j\<close> of each array in turn.\<close>

definition stack_at :: "nat \<Rightarrow> 'a ndarray list \<Rightarrow> 'a ndarray" where
  "stack_at k arrs =
     (let s = shape (hd arrs);
          inner = prod_list (drop k s);
          outer = prod_list (take k s)
      in \<lparr>shape = take k s @ length arrs # drop k s,
          data = concat (map (\<lambda>j. concat (map (\<lambda>a. take inner (drop (j * inner) (data a))) arrs))
                          [0..<outer])\<rparr>)"

definition np_stack :: "'a ndarray list \<Rightarrow> int \<Rightarrow> exn + 'a ndarray" where
  "np_stack arrs axis =
     (case arrs of
        [] \<Rightarrow> Inl (ValueError ''need at least one array to stack'')
      | a # _ \<Rightarrow>
          if list_ex (\<lambda>b. shape b \<noteq> shape a) arrs
          then Inl (ValueError ''all input arrays must have the same shape'')
          else (let n = int (length (shape a)) + 1;
                    k = (if axis < 0 then axis + n else axis)
                in if k < 0 \<or> n \<le> k then Inl (ValueError ''axis is out of bounds'')
                   else Inr (stack_at (nat k) arrs)))"

text \<open>Python's \<open>needle in haystack\<close> on strings.\<close>

fun starts_with :: "string \<Rightarrow> string \<Rightarrow> bool" where
  "starts_with _ [] = True"
| "starts_with [] (_ # _) = False"
| "starts_with (c # cs) (d # ds) = (c = d \<and> starts_with cs ds)"

fun str_in :: "string \<Rightarrow> string \<Rightarrow> bool" where
  "str_in needle [] = (needle = [])"
| "str_in needle (c # cs) = (starts_with (c # cs) needle \<or> str_in needle cs)"

subsection \<open>Settings, as the plain values the module reads\<close>

record settings =
  x_name :: string
  y_name :: string
  expected_diameter :: int
  mode :: string
  do_3D :: bool
  use_gpu :: bool
  invert :: bool
  supply_nuclei :: bool
  nuclei_image :: string
  save_probabilities :: bool
  probabilities_name :: string
  model_directory :: string
  model_file_name :: string
  flow_threshold :: real
  cellprob_threshold :: real
  manual_GPU_memory_share :: real
  stitch_threshold :: real
  min_size :: int
  remove_edge_masks :: bool
  denoise :: bool
  denoise_type :: string

text \<open>\<open>os.path.join\<close> of two components (POSIX rules); \<open>model_directory\<close> holds
  the absolute path that \<open>get_absolute_path()\<close> returns.\<close>

definition os_path_join :: "string \<Rightarrow> string \<Rightarrow> string" where
  "os_path_join a b =
     (if b \<noteq> [] \<and> hd b = CHR ''/'' then b
      else if a = [] \<or> last a = CHR ''/'' then a @ b
      else a @ CHR ''/'' # b)"

subsection \<open>The external inference service and the calls made to it\<close>

text \<open>The arguments of one segmentation call \<open>current_model.eval(...)\<close>.\<close>

record eval_args =
  arg_x :: "real ndarray"
  arg_channels :: "nat \<times> nat"
  arg_diameter :: "int option"
  arg_do_3D :: bool
  arg_anisotropy :: real
  arg_flow_threshold :: real
  arg_cellprob_threshold :: real
  arg_stitch_threshold :: real
  arg_min_size :: int
  arg_invert :: bool

text \<open>The cellpose package is a black box: its constructors and its two \<open>eval\<close> entry
  points are parameters, and each may raise. \<open>resize\<close> is
  \<open>skimage.transform.resize\<close> with its default (interpolating) order, used for the
  probability map.\<close>

record ('m, 'd) provider =
  Cellpose :: "string \<Rightarrow> bool \<Rightarrow> exn + 'm"
  CellposeModel :: "string \<Rightarrow> bool \<Rightarrow> exn + 'm"
  DenoiseModel :: "string \<Rightarrow> bool \<Rightarrow> bool \<Rightarrow> exn + 'd"
  denoise_eval :: "'d \<Rightarrow> real ndarray \<Rightarrow> int option \<Rightarrow> nat \<times> nat \<Rightarrow> exn + real ndarray"
  model_eval :: "'m \<Rightarrow> eval_args \<Rightarrow> exn + (int ndarray \<times> real ndarray list)"
  resize :: "real ndarray \<Rightarrow> nat list \<Rightarrow> exn + real ndarray"

text \<open>The trace of external calls, in the order they are issued.\<close>

datatype event =
    Set_memory_fraction real
  | New_Cellpose string bool
  | New_CellposeModel string bool
  | New_DenoiseModel string bool bool
  | Denoise_eval "real ndarray" "int option" "nat \<times> nat"
  | Model_eval eval_args
  | Empty_cache

subsection \<open>The model cache\<close>

text \<open>The four attributes set by \<open>__init__\<close>.\<close>

record ('m, 'd) module_state =
  current_model :: "'m option"
  current_model_params :: "(string \<times> bool) option"
  recon_model :: "'d option"
  recon_model_params :: "(string \<times> bool \<times> bool) option"

definition init :: "('m, 'd) module_state" where
  "init = \<lparr>current_model = None, current_model_params = None,
            recon_model = None, recon_model_params = None\<rparr>"

text \<open>\<open>load_models\<close>: only load new model instances if settings have changed. The result
  is the outcome, the attributes afterwards and the external calls made.\<close>

definition load_models ::
  "('m, 'd) provider \<Rightarrow> settings \<Rightarrow> ('m, 'd) module_state
     \<Rightarrow> (exn + unit) \<times> ('m, 'd) module_state \<times> event list" where
  "load_models env s st =
    (let ev0 = (if use_gpu s then [Set_memory_fraction (manual_GPU_memory_share s)] else []);
         model_name = (if mode s = ''custom''
                       then os_path_join (model_directory s) (model_file_name s)
                       else mode s);
         model_params = (model_name, use_gpu s);
         (r1, ev1) =
           (if current_model_params st \<noteq> Some model_params then
              (if model_name \<in> set SIZED_MODELS then
                 (case Cellpose env model_name (use_gpu s) of
                    Inl e \<Rightarrow> Inl e
                  | Inr h \<Rightarrow> Inr (st\<lparr>current_model := Some h,
                                     current_model_params := Some model_params\<rparr>),
                  [New_Cellpose model_name (use_gpu s)])
               else
                 (case CellposeModel env model_name (use_gpu s) of
                    Inl e \<Rightarrow> Inl e
                  | Inr h \<Rightarrow> Inr (st\<lparr>current_model := Some h,
                                     current_model_params := Some model_params\<rparr>),
                  [New_CellposeModel model_name (use_gpu s)]))
            else (Inr st, []))
     in case r1 of
          Inl e \<Rightarrow> (Inl e, st, ev0 @ ev1)
        | Inr st1 \<Rightarrow>
            (if denoise s then
               (let recon_params = (denoise_type s, use_gpu s,
                                    mode s \<noteq> ''nuclei'' \<and> supply_nuclei s)
                in if recon_model_params st1 \<noteq> Some recon_params then
                     (case DenoiseModel env (fst recon_params) (fst (snd recon_params))
                             (snd (snd recon_params)) of
                        Inl e \<Rightarrow>
                          (Inl e, st1,
                           ev0 @ ev1 @ [New_DenoiseModel (fst recon_params)
                              (fst (snd recon_params)) (snd (snd recon_params))])
                      | Inr d \<Rightarrow>
                          (Inr (), st1\<lparr>recon_model := Some d,
                                       recon_model_params := Some recon_params\<rparr>,
                           ev0 @ ev1 @ [New_DenoiseModel (fst recon_params)
                              (fst (snd recon_params)) (snd (snd recon_params))]))
                   else (Inr (), st1\<lparr>recon_model_params := Some recon_params\<rparr>, ev0 @ ev1))
             else (Inr (), st1\<lparr>recon_model := None, recon_model_params := None\<rparr>,
                   ev0 @ ev1)))"


definition denoiser_identity :: "settings \<Rightarrow> string \<times> bool \<times> bool" where
  "denoiser_identity s =
     (denoise_type s, use_gpu s, mode s \<noteq> ''nuclei'' \<and> supply_nuclei s)"

fun is_model_load :: "event \<Rightarrow> bool" where
  "is_model_load (New_Cellpose _ _) = True"
| "is_model_load (New_CellposeModel _ _) = True"
| "is_model_load _ = False"

fun is_denoiser_load :: "event \<Rightarrow> bool" where
  "is_denoiser_load (New_DenoiseModel _ _ _) = True"
| "is_denoiser_load _ = False"

definition model_loads :: "event list \<Rightarrow> nat" where
  "model_loads evs = length (filter is_model_load evs)"

definition denoiser_loads :: "event list \<Rightarrow> nat" where
  "denoiser_loads evs = length (filter is_denoiser_load evs)"

subsection \<open>Library helpers used after inference\<close>

text \<open>Modelled from the spec: \<open>skimage.transform.resize(..., preserve_range=True, order=0)\<close>
  is a library function outside this module. The spec has it resize the label map to the
  requested shape by nearest-neighbour (label-preserving) interpolation: the result has the
  requested shape and each of its elements is the source element nearest to it along every
  axis. A source of another rank, or an empty source for a non-empty result, has no nearest
  element and is an error here.\<close>

definition nearest :: "nat \<Rightarrow> nat \<Rightarrow> nat \<Rightarrow> nat" where
  "nearest n m i = ((2 * i + 1) * m) div (2 * n)"

text \<open>Modelled from the spec: \<open>skimage.transform.resize\<close> with \<open>order=0\<close>, which is
  outside this module; see above.\<close>

definition resize_nearest :: "'a ndarray \<Rightarrow> nat list \<Rightarrow> exn + 'a ndarray" where
  "resize_nearest a target =
     (if length target \<noteq> length (shape a) \<or> length (data a) \<noteq> prod_list (shape a)
         \<or> (prod_list (shape a) = 0 \<and> prod_list target \<noteq> 0)
      then Inl (ValueError ''cannot resize'')
      else Inr \<lparr>shape = target,
                data = map (\<lambda>idx. data a ! ravel (shape a)
                                   (map (\<lambda>(i, n, m). nearest n m i) (zip idx (zip target (shape a)))))
                           (indices target)\<rparr>)"

text \<open>\<open>cellpose.utils.remove_edge_masks\<close>, a library function outside this module, as
  line 507 calls it: with the library's defaults, so with \<open>change_index=True\<close>. It sets
  to 0 every positive label that has a pixel on a boundary face of the (possibly
  volumetric) array, and then renumbers what remains: each value is replaced by its index
  among the sorted distinct values of the array (\<open>numpy.unique\<close> with
  \<open>return_inverse=True\<close>).\<close>

definition on_edge :: "nat list \<Rightarrow> nat list \<Rightarrow> bool" where
  "on_edge s idx = list_ex (\<lambda>(i, n). i = 0 \<or> Suc i = n) (zip idx s)"

text \<open>The values found on a boundary face.\<close>

definition edge_labels :: "int ndarray \<Rightarrow> int list" where
  "edge_labels a =
     map snd (filter (\<lambda>(idx, v). on_edge (shape a) idx) (zip (indices (shape a)) (data a)))"

text \<open>The removal loop: the positive labels found on a boundary face become 0.\<close>

definition zeroed_labels :: "int ndarray \<Rightarrow> int list" where
  "zeroed_labels a = map (\<lambda>v. if 0 < v \<and> v \<in> set (edge_labels a) then 0 else v) (data a)"

text \<open>\<open>numpy.unique(vs, return_inverse=True)[1]\<close>: for each element, its index among the
  sorted distinct values, which is the number of distinct values below it.\<close>

definition unique_inverse :: "int list \<Rightarrow> int list" where
  "unique_inverse vs = map (\<lambda>v. int (length (filter (\<lambda>u. u < v) (remdups vs)))) vs"

definition cellpose_remove_edge_masks :: "int ndarray \<Rightarrow> int ndarray" where
  "cellpose_remove_edge_masks a = a\<lparr>data := unique_inverse (zeroed_labels a)\<rparr>"

text \<open>Modelled from the spec: the class \<open>Binary\<close> of \<open>cellprofiler_core.setting\<close> is
  outside this module. \<open>run\<close> tests the setting object \<open>self.remove_edge_masks\<close> itself,
  not its \<open>.value\<close>; the spec has edge-mask removal happen if it is requested, so the
  truth value of a \<open>Binary\<close> is its value.\<close>

definition Binary_bool :: "bool \<Rightarrow> bool" where
  "Binary_bool v = v"

subsection \<open>Images, objects and the workspace\<close>

text \<open>What the image source provides for a named image; \<open>parent_image\<close> is an opaque
  back-reference.\<close>

record image =
  pixel_data :: "real ndarray"
  multichannel :: bool
  spacing :: "real list"
  parent_image :: "string option"

record objects =
  segmented :: "int ndarray"
  objects_parent_image :: "string option"

text \<open>The arguments of the \<open>Image(...)\<close> constructed for the probability map.\<close>

record new_image =
  new_pixel_data :: "real ndarray"
  new_parent_image :: "string option"
  new_dimensions :: nat

text \<open>The workspace: the images a run can read, and what a run has added to the object
  set, to the image set and to the measurements (\<open>add_measurements\<close>, inherited from
  \<open>ImageSegmentation\<close>, records the objects named \<open>y_name\<close>).\<close>

record workspace =
  image_set :: "string \<rightharpoonup> image"
  objects_added :: "(string \<times> objects) list"
  images_added :: "(string \<times> new_image) list"
  measurements_added :: "string list"

definition get_image :: "workspace \<Rightarrow> string \<Rightarrow> exn + image" where
  "get_image ws name =
     (case image_set ws name of
        None \<Rightarrow> Inl (ValueError ''The image is missing from the pipeline'')
      | Some img \<Rightarrow> Inr img)"

subsection \<open>The run\<close>

text \<open>Lines 438-440: the anisotropy is \<open>x.spacing[0] / x.spacing[1]\<close> in 3D mode.\<close>

definition anisotropy_of :: "settings \<Rightarrow> image \<Rightarrow> exn + real" where
  "anisotropy_of s x =
     (if do_3D s then
        (case spacing x of
           a # b # _ \<Rightarrow> if b = 0 then Inl ZeroDivisionError else Inr (a / b)
         | _ \<Rightarrow> Inl IndexError)
      else Inr 0)"

text \<open>Line 442.\<close>

definition resolve_diameter :: "settings \<Rightarrow> int option" where
  "resolve_diameter s = (if expected_diameter s > 0 then Some (expected_diameter s) else None)"

text \<open>Lines 449-466: the array sent to inference and its channel pair.\<close>

definition compose :: "settings \<Rightarrow> workspace \<Rightarrow> image \<Rightarrow> exn + (real ndarray \<times> (nat \<times> nat))" where
  "compose s ws x =
     (if mode s \<noteq> ''nuclei'' \<and> supply_nuclei s then
        (case get_image ws (nuclei_image s) of
           Inl e \<Rightarrow> Inl e
         | Inr nuc_image \<Rightarrow>
             (case (if do_3D s
                    then np_stack [zeros_like (pixel_data x), pixel_data x, pixel_data nuc_image] 1
                    else np_stack [zeros_like (pixel_data x), pixel_data x, pixel_data nuc_image] (- 1)) of
                Inl e \<Rightarrow> Inl e
              | Inr x_data \<Rightarrow> Inr (x_data, (2, 3))))
      else Inr (pixel_data x, (0, 0)))"

text \<open>Lines 471-486: the optional denoising pass. The result is the array, the diameter
  and the channel pair to segment with, and the call made.\<close>

definition denoise_pass ::
  "('m, 'd) provider \<Rightarrow> settings \<Rightarrow> ('m, 'd) module_state \<Rightarrow> real ndarray
     \<Rightarrow> nat \<times> nat \<Rightarrow> int option
     \<Rightarrow> (exn + (real ndarray \<times> int option \<times> (nat \<times> nat))) \<times> event list" where
  "denoise_pass env s st x_data channels diam =
     (case recon_model st of
        Some rm \<Rightarrow>
          (case denoise_eval env rm x_data diam channels of
             Inl e \<Rightarrow> Inl e
           | Inr input_data \<Rightarrow>
               Inr (input_data,
                    (if denoise_type s = ''upsample_cyto3'' then Some 30
                     else if denoise_type s = ''upsample_nuclei'' then Some 17
                     else diam),
                    (if mode s \<noteq> ''nuclei'' \<and> supply_nuclei s then (0, 1) else channels)),
           [Denoise_eval x_data diam channels])
      | None \<Rightarrow> (Inr (x_data, diam, channels), []))"

text \<open>Lines 488-499: the arguments of the segmentation call.\<close>

definition eval_arguments ::
  "settings \<Rightarrow> real ndarray \<Rightarrow> nat \<times> nat \<Rightarrow> int option \<Rightarrow> real \<Rightarrow> eval_args" where
  "eval_arguments s input_data channels diam anisotropy =
     \<lparr>arg_x = input_data, arg_channels = channels, arg_diameter = diam,
      arg_do_3D = do_3D s, arg_anisotropy = anisotropy,
      arg_flow_threshold = flow_threshold s,
      arg_cellprob_threshold = cellprob_threshold s,
      arg_stitch_threshold = stitch_threshold s,
      arg_min_size = min_size s, arg_invert = invert s\<rparr>"

text \<open>Lines 501-507: the label map is resized to the shape of the primary image after an
  upsampling denoiser, then edge masks are removed.\<close>

definition post_process :: "settings \<Rightarrow> image \<Rightarrow> int ndarray \<Rightarrow> exn + int ndarray" where
  "post_process s x y_data =
     (case (if denoise s \<and> str_in ''upsample'' (denoise_type s)
            then resize_nearest y_data (shape (pixel_data x))
            else Inr y_data) of
        Inl e \<Rightarrow> Inl e
      | Inr y_resized \<Rightarrow>
          Inr (if Binary_bool (remove_edge_masks s)
               then cellpose_remove_edge_masks y_resized
               else y_resized))"

text \<open>Lines 471-507, the body of the \<open>try\<close>. The result is
  \<open>(y_data, flows, input_data)\<close> and the calls made.\<close>

definition infer ::
  "('m, 'd) provider \<Rightarrow> settings \<Rightarrow> ('m, 'd) module_state \<Rightarrow> image \<Rightarrow> real ndarray
     \<Rightarrow> nat \<times> nat \<Rightarrow> int option \<Rightarrow> real
     \<Rightarrow> (exn + (int ndarray \<times> real ndarray list \<times> real ndarray)) \<times> event list" where
  "infer env s st x x_data channels diam anisotropy =
    (case denoise_pass env s st x_data channels diam of
       (Inl e, ev1) \<Rightarrow> (Inl e, ev1)
     | (Inr (input_data, diam', channels'), ev1) \<Rightarrow>
         (case current_model st of
            None \<Rightarrow> (Inl AttributeError, ev1)
          | Some m \<Rightarrow>
              (let args = eval_arguments s input_data channels' diam' anisotropy
               in case model_eval env m args of
                    Inl e \<Rightarrow> (Inl e, ev1 @ [Model_eval args])
                  | Inr (y_data, flows) \<Rightarrow>
                      (case post_process s x y_data of
                         Inl e \<Rightarrow> (Inl e, ev1 @ [Model_eval args])
                       | Inr y_final \<Rightarrow>
                           (Inr (y_final, flows, input_data), ev1 @ [Model_eval args])))))"

text \<open>Lines 519-549: the label map goes to the object set, the probability map (the
  third flow, resized to the label map's shape) to the image set when it is requested,
  and the measurements are recorded. The bookkeeping under \<open>show_window\<close> only feeds
  the figure and is left out.\<close>

definition publish ::
  "('m, 'd) provider \<Rightarrow> settings \<Rightarrow> image \<Rightarrow> workspace \<Rightarrow> int ndarray \<Rightarrow> real ndarray list
     \<Rightarrow> (exn + unit) \<times> workspace" where
  "publish env s x ws y_data flows =
    (let y = \<lparr>segmented = y_data, objects_parent_image = parent_image x\<rparr>;
         ws1 = ws\<lparr>objects_added := objects_added ws @ [(y_name s, y)]\<rparr>
     in case (if save_probabilities s then
                (case flows of
                   _ # _ # f2 # _ \<Rightarrow>
                     (case resize env f2 (shape y_data) of
                        Inl e \<Rightarrow> Inl e
                      | Inr size_corrected \<Rightarrow>
                          Inr (ws1\<lparr>images_added := images_added ws1 @
                                 [(probabilities_name s,
                                   \<lparr>new_pixel_data = size_corrected,
                                    new_parent_image = parent_image x,
                                    new_dimensions = length (shape size_corrected)\<rparr>)]\<rparr>))
                 | _ \<Rightarrow> Inl IndexError)
              else Inr ws1) of
          Inl e \<Rightarrow> (Inl e, ws1)
        | Inr ws2 \<Rightarrow>
            (Inr (), ws2\<lparr>measurements_added := measurements_added ws2 @ [y_name s]\<rparr>))"

text \<open>\<open>run\<close>. The result is the outcome, the module's attributes, the workspace and
  the external calls made. The \<open>finally\<close> clause clears the accelerator cache on
  every exit of the \<open>try\<close>.\<close>

definition run ::
  "('m, 'd) provider \<Rightarrow> settings \<Rightarrow> ('m, 'd) module_state \<Rightarrow> workspace
     \<Rightarrow> (exn + unit) \<times> ('m, 'd) module_state \<times> workspace \<times> event list" where
  "run env s st ws =
    (case get_image ws (x_name s) of
       Inl e \<Rightarrow> (Inl e, st, ws, [])
     | Inr x \<Rightarrow>
    (case anisotropy_of s x of
       Inl e \<Rightarrow> (Inl e, st, ws, [])
     | Inr anisotropy \<Rightarrow>
    (let diam = resolve_diameter s in
     if multichannel x then
       (Inl (ValueError ''Color images are not currently supported. Please provide greyscale images.''),
        st, ws, [])
     else
    (case compose s ws x of
       Inl e \<Rightarrow> (Inl e, st, ws, [])
     | Inr (x_data, channels) \<Rightarrow>
    (case load_models env s st of
       (Inl e, st1, ev1) \<Rightarrow> (Inl e, st1, ws, ev1)
     | (Inr _, st1, ev1) \<Rightarrow>
    (let (r, ev2) = infer env s st1 x x_data channels diam anisotropy;
         ev3 = (if use_gpu s then [Empty_cache] else [])
     in case r of
          Inl e \<Rightarrow> (Inl e, st1, ws, ev1 @ ev2 @ ev3)
        | Inr (y_data, flows, input_data) \<Rightarrow>
            (case publish env s x ws y_data flows of
               (r', ws') \<Rightarrow> (r', st1, ws', ev1 @ ev2 @ ev3))))))))"

text \<open>Lines 337-377: the names of the settings shown to the user, in order.\<close>

definition visible_settings :: "settings \<Rightarrow> string list" where
  "visible_settings s =
     [''mode'', ''x_name'']
     @ (if mode s \<noteq> ''nuclei''
        then [''supply_nuclei''] @ (if supply_nuclei s then [''nuclei_image''] else [])
        else [])
     @ (if mode s = ''custom'' then [''model_directory'', ''model_file_name''] else [])
     @ [''expected_diameter'', ''denoise'']
     @ (if denoise s then [''denoise_type''] else [])
     @ [''cellprob_threshold'', ''min_size'', ''flow_threshold'', ''y_name'', ''invert'',
        ''save_probabilities'']
     @ (if save_probabilities s then [''probabilities_name''] else [])
     @ [''do_3D'']
     @ (if \<not> do_3D s then [''stitch_threshold''] else [])
     @ [''remove_edge_masks'']"

subsection \<open>Reading a trace, and the states the module can be in\<close>

text \<open>The segmentation calls and the denoising calls of a trace; and the invariant of the
  cached attributes: a stored key comes with a stored handle. It holds after
  \<open>__init__\<close> and every invocation keeps it.\<close>

fun model_eval_calls :: "event list \<Rightarrow> eval_args list" where
  "model_eval_calls [] = []"
| "model_eval_calls (Model_eval a # evs) = a # model_eval_calls evs"
| "model_eval_calls (_ # evs) = model_eval_calls evs"

fun denoise_eval_calls :: "event list \<Rightarrow> (real ndarray \<times> int option \<times> (nat \<times> nat)) list" where
  "denoise_eval_calls [] = []"
| "denoise_eval_calls (Denoise_eval x d c # evs) = (x, d, c) # denoise_eval_calls evs"
| "denoise_eval_calls (_ # evs) = denoise_eval_calls evs"

definition cache_ok :: "('m, 'd) module_state \<Rightarrow> bool" where
  "cache_ok st = ((current_model_params st \<noteq> None \<longrightarrow> current_model st \<noteq> None)
                \<and> (recon_model_params st \<noteq> None \<longrightarrow> recon_model st \<noteq> None))"

text \<open>The inference calls of a trace, denoising and segmentation alike, each with the
  array and the channel pair it received.\<close>

fun inference_calls :: "event list \<Rightarrow> (real ndarray \<times> (nat \<times> nat)) list" where
  "inference_calls [] = []"
| "inference_calls (Denoise_eval t d c # evs) = (t, c) # inference_calls evs"
| "inference_calls (Model_eval a # evs) = (arg_x a, arg_channels a) # inference_calls evs"
| "inference_calls (_ # evs) = inference_calls evs"

text \<open>The four components of the result of a run.\<close>

definition outcome_of :: "'r \<times> 's \<times> 'w \<times> 'e \<Rightarrow> 'r" where
  "outcome_of res = fst res"

definition state_of :: "'r \<times> 's \<times> 'w \<times> 'e \<Rightarrow> 's" where
  "state_of res = fst (snd res)"

definition workspace_of :: "'r \<times> 's \<times> 'w \<times> 'e \<Rightarrow> 'w" where
  "workspace_of res = fst (snd (snd res))"

definition trace_of :: "'r \<times> 's \<times> 'w \<times> 'e \<Rightarrow> 'e" where
  "trace_of res = snd (snd (snd res))"


subsection \<open>A reference provider and reference inputs\<close>

text \<open>A provider whose constructors return their arguments as the handle, whose denoiser
  returns its input and whose model returns a fixed label map; and the default values of
  \<open>create_settings\<close>.\<close>

definition demo_provider :: "int ndarray \<Rightarrow> (string \<times> bool, string \<times> bool \<times> bool) provider" where
  "demo_provider labels =
     \<lparr>Cellpose = (\<lambda>n g. Inr (n, g)),
      CellposeModel = (\<lambda>n g. Inr (n, g)),
      DenoiseModel = (\<lambda>n g c. Inr (n, g, c)),
      denoise_eval = (\<lambda>d x diam ch. Inr x),
      model_eval = (\<lambda>m args. Inr (labels, [arg_x args, arg_x args, arg_x args])),
      resize = (\<lambda>a t. Inr \<lparr>shape = t, data = replicate (prod_list t) 0\<rparr>)\<rparr>"

definition default_settings :: settings where
  "default_settings =
     \<lparr>x_name = ''cells'', y_name = ''objects'', expected_diameter = 30, mode = ''cyto3'',
      do_3D = False, use_gpu = False, invert = False, supply_nuclei = False,
      nuclei_image = ''dna'', save_probabilities = False,
      probabilities_name = ''Probabilities'', model_directory = ''/models'',
      model_file_name = ''cyto_0'', flow_threshold = 4 / 10, cellprob_threshold = 0,
      manual_GPU_memory_share = 1 / 10, stitch_threshold = 0, min_size = 15,
      remove_edge_masks = True, denoise = False, denoise_type = ''denoise_cyto3''\<rparr>"

definition demo_image :: image where
  "demo_image = \<lparr>pixel_data = \<lparr>shape = [3, 3], data = [1, 2, 3, 4, 5, 6, 7, 8, 9]\<rparr>,
                  multichannel = False, spacing = [1, 1], parent_image = None\<rparr>"

definition demo_nuclei :: image where
  "demo_nuclei = \<lparr>pixel_data = \<lparr>shape = [3, 3], data = [0, 0, 0, 0, 1, 0, 0, 0, 0]\<rparr>,
                   multichannel = False, spacing = [1, 1], parent_image = None\<rparr>"

definition demo_labels :: "int ndarray" where
  "demo_labels = \<lparr>shape = [3, 3], data = [7, 0, 0, 0, 4, 0, 0, 0, 0]\<rparr>"

definition demo_workspace :: workspace where
  "demo_workspace = \<lparr>image_set = [''cells'' \<mapsto> demo_image, ''dna'' \<mapsto> demo_nuclei],
                      objects_added = [], images_added = [], measurements_added = []\<rparr>"

definition demo_color_image :: image where
  "demo_color_image = \<lparr>pixel_data = \<lparr>shape = [1, 1, 3], data = [1, 2, 3]\<rparr>,
                        multichannel = True, spacing = [1, 1], parent_image = None\<rparr>"

text \<open>A label map at twice the resolution of the reference image, as a model returns
  after an upsampling denoiser.\<close>

definition demo_upsampled_labels :: "int ndarray" where
  "demo_upsampled_labels =
     \<lparr>shape = [6, 6],
      data = [0, 0, 0, 0, 0, 0,
              0, 7, 0, 0, 0, 0,
              0, 0, 4, 4, 0, 0,
              0, 0, 4, 4, 0, 0,
              0, 0, 0, 0, 0, 0,
              0, 0, 0, 0, 0, 0]\<rparr>"

text \<open>A volume of two planes with anisotropic spacing, its nuclei volume and a label
  volume.\<close>

definition demo_volume :: image where
  "demo_volume = \<lparr>pixel_data = \<lparr>shape = [2, 2, 2], data = [1, 2, 3, 4, 5, 6, 7, 8]\<rparr>,
                   multichannel = False, spacing = [2, 1 / 2, 1 / 2], parent_image = None\<rparr>"

definition demo_volume_nuclei :: image where
  "demo_volume_nuclei = \<lparr>pixel_data = \<lparr>shape = [2, 2, 2], data = [0, 0, 0, 9, 0, 0, 0, 0]\<rparr>,
                   multichannel = False, spacing = [2, 1 / 2, 1 / 2], parent_image = None\<rparr>"

definition demo_volume_labels :: "int ndarray" where
  "demo_volume_labels = \<lparr>shape = [2, 2, 2], data = [1, 1, 0, 0, 0, 0, 2, 2]\<rparr>"

definition demo_volume_workspace :: workspace where
  "demo_volume_workspace =
     \<lparr>image_set = [''cells'' \<mapsto> demo_volume, ''dna'' \<mapsto> demo_volume_nuclei],
      objects_added = [], images_added = [], measurements_added = []\<rparr>"

text \<open>A wider image and a label map for it with two interior objects, 1 and 3, and an
  object 2 in a corner.\<close>

definition demo_wide_image :: image where
  "demo_wide_image =
     \<lparr>pixel_data = \<lparr>shape = [4, 5],
                     data = [1, 2, 3, 4, 5, 6, 7, 8, 9, 10, 11, 12, 13, 14, 15, 16, 17, 18,
                             19, 20]\<rparr>,
      multichannel = False, spacing = [1, 1], parent_image = None\<rparr>"

definition demo_wide_labels :: "int ndarray" where
  "demo_wide_labels =
     \<lparr>shape = [4, 5],
      data = [2, 0, 0, 0, 0,
              0, 1, 0, 3, 0,
              0, 1, 0, 3, 0,
              0, 0, 0, 0, 0]\<rparr>"

definition demo_wide_workspace :: workspace where
  "demo_wide_workspace =
     \<lparr>image_set = [''cells'' \<mapsto> demo_wide_image],
      objects_added = [], images_added = [], measurements_added = []\<rparr>"

section \<open>Properties\<close>

subsection \<open>The model cache\<close>









text \<open>Claim C10 (denoiser cache reset). After an invocation of \<open>load_models\<close> with
  denoising disabled has returned, the cached denoiser handle and its key are both
  \<open>None\<close>, whatever was cached before; so a later invocation with denoising enabled
  that returns has loaded a fresh denoiser exactly once and stores it under the requested
  identity, even when that identity is the one cached before denoising was disabled.\<close>

theorem denoiser_cache_reset:
  assumes "\<not> denoise s" and "load_models env s st = (Inr (), st', evs)"
  shows "recon_model st' = None \<and> recon_model_params st' = None
       \<and> (\<forall>s2 st2 evs2. denoise s2 \<longrightarrow> load_models env s2 st' = (Inr (), st2, evs2) \<longrightarrow>
              denoiser_loads evs2 = 1
              \<and> recon_model_params st2 = Some (denoiser_identity s2)
              \<and> (\<exists>d. DenoiseModel env (denoise_type s2) (use_gpu s2)
                         (mode s2 \<noteq> ''nuclei'' \<and> supply_nuclei s2) = Inr d
                     \<and> recon_model st2 = Some d))"
proof -
  have reset: "recon_model st' = None \<and> recon_model_params st' = None"
    using assms
    by (auto simp: load_models_def Let_def split: if_splits sum.splits prod.splits)
  have later: "denoiser_loads evs2 = 1
              \<and> recon_model_params st2 = Some (denoiser_identity s2)
              \<and> (\<exists>d. DenoiseModel env (denoise_type s2) (use_gpu s2)
                         (mode s2 \<noteq> ''nuclei'' \<and> supply_nuclei s2) = Inr d
                     \<and> recon_model st2 = Some d)"
    if "denoise s2" and "load_models env s2 st' = (Inr (), st2, evs2)" for s2 st2 evs2
    using that reset
    by (auto simp: load_models_def denoiser_identity_def denoiser_loads_def Let_def
        split: if_splits sum.splits prod.splits)
  show ?thesis using reset later by blast
qed

theorem denoiser_cache_reset_witness:
  "\<not> denoise default_settings
   \<and> load_models (demo_provider \<lparr>shape = [], data = [0]\<rparr>) default_settings
        \<lparr>current_model = Some (''cyto3'', False),
         current_model_params = Some (''cyto3'', False),
         recon_model = Some (''denoise_cyto3'', False, False),
         recon_model_params = Some (''denoise_cyto3'', False, False)\<rparr>
       = (Inr (), \<lparr>current_model = Some (''cyto3'', False),
                   current_model_params = Some (''cyto3'', False),
                   recon_model = None, recon_model_params = None\<rparr>, [])
   \<and> denoiser_identity (default_settings\<lparr>denoise := True\<rparr>) = (''denoise_cyto3'', False, False)
   \<and> load_models (demo_provider \<lparr>shape = [], data = [0]\<rparr>)
        (default_settings\<lparr>denoise := True\<rparr>)
        \<lparr>current_model = Some (''cyto3'', False),
         current_model_params = Some (''cyto3'', False),
         recon_model = None, recon_model_params = None\<rparr>
       = (Inr (), \<lparr>current_model = Some (''cyto3'', False),
                   current_model_params = Some (''cyto3'', False),
                   recon_model = Some (''denoise_cyto3'', False, False),
                   recon_model_params = Some (''denoise_cyto3'', False, False)\<rparr>,
          [New_DenoiseModel ''denoise_cyto3'' False False])
   \<and> denoiser_loads [New_DenoiseModel ''denoise_cyto3'' False False] = 1"
  using denoiser_cache_reset[of default_settings "demo_provider \<lparr>shape = [], data = [0]\<rparr>"
      "\<lparr>current_model = Some (''cyto3'', False),
         current_model_params = Some (''cyto3'', False),
         recon_model = Some (''denoise_cyto3'', False, False),
         recon_model_params = Some (''denoise_cyto3'', False, False)\<rparr>"
      "\<lparr>current_model = Some (''cyto3'', False),
                   current_model_params = Some (''cyto3'', False),
                   recon_model = None, recon_model_params = None\<rparr>" "[]"]
  by (simp add: load_models_def demo_provider_def default_settings_def
      SIZED_MODELS_def denoiser_identity_def denoiser_loads_def Let_def)

subsection \<open>The external calls of a run\<close>

lemma model_eval_calls_append [simp]:
  "model_eval_calls (xs @ ys) = model_eval_calls xs @ model_eval_calls ys"
  by (induction xs rule: model_eval_calls.induct) simp_all

lemma denoise_eval_calls_append [simp]:
  "denoise_eval_calls (xs @ ys) = denoise_eval_calls xs @ denoise_eval_calls ys"
  by (induction xs rule: denoise_eval_calls.induct) simp_all

lemma load_models_no_eval:
  assumes "load_models env s st = (r, st', evs)"
  shows "model_eval_calls evs = [] \<and> denoise_eval_calls evs = []"
  using assms
  by (auto simp: load_models_def Let_def split: if_splits sum.splits prod.splits)

lemma load_models_recon:
  assumes "load_models env s st = (Inr u, st', evs)" and "recon_model st' \<noteq> None"
  shows "denoise s"
  using assms
  by (auto simp: load_models_def Let_def split: if_splits sum.splits prod.splits)

lemma load_models_recon_ok:
  assumes "load_models env s st = (Inr u, st', evs)" and "cache_ok st"
  shows "(recon_model st' \<noteq> None) = denoise s"
  using assms
  by (auto simp: load_models_def Let_def cache_ok_def split: if_splits sum.splits prod.splits)

lemma load_models_cache_ok:
  assumes "load_models env s st = (r, st', evs)" and "cache_ok st"
  shows "cache_ok st'"
  using assms
  by (auto simp: load_models_def Let_def cache_ok_def split: if_splits sum.splits prod.splits)

lemma denoise_pass_events:
  "snd (denoise_pass env s st x_data channels diam) =
     (if recon_model st = None then [] else [Denoise_eval x_data diam channels])"
  by (simp add: denoise_pass_def split: option.splits)

lemma denoise_pass_result:
  assumes "denoise_pass env s st x_data channels diam = (Inr (i, d, c), ev)"
  shows "d = (if recon_model st = None then diam
              else if denoise_type s = ''upsample_cyto3'' then Some 30
              else if denoise_type s = ''upsample_nuclei'' then Some 17
              else diam)"
    and "c = (if recon_model st \<noteq> None \<and> mode s \<noteq> ''nuclei'' \<and> supply_nuclei s
              then (0, 1) else channels)"
    and "recon_model st = None \<Longrightarrow> i = x_data"
  using assms
  by (auto simp: denoise_pass_def split: option.splits sum.splits)

lemma infer_events:
  assumes "infer env s st x x_data channels diam an = (r, evs)"
  shows "denoise_eval_calls evs =
           (if recon_model st = None then [] else [(x_data, diam, channels)])"
    and "length (model_eval_calls evs) \<le> 1"
proof -
  obtain r1 ev1 where dp: "denoise_pass env s st x_data channels diam = (r1, ev1)"
    by (cases "denoise_pass env s st x_data channels diam")
  have ev1: "ev1 = (if recon_model st = None then [] else [Denoise_eval x_data diam channels])"
    using denoise_pass_events[of env s st x_data channels diam] dp by simp
  have "evs = ev1 \<or> (\<exists>a. evs = ev1 @ [Model_eval a])"
    using assms dp
    by (auto simp: infer_def Let_def split: sum.splits prod.splits option.splits)
  then show "denoise_eval_calls evs =
           (if recon_model st = None then [] else [(x_data, diam, channels)])"
    and "length (model_eval_calls evs) \<le> 1"
    using ev1 by auto
qed

lemma infer_trace:
  assumes inf: "infer env s st x x_data channels diam an = (r, evs)"
    and dp: "denoise_pass env s st x_data channels diam = (r1, ev1)"
  shows "evs = ev1 \<or>
         (\<exists>i d c. r1 = Inr (i, d, c) \<and> evs = ev1 @ [Model_eval (eval_arguments s i c d an)])"
proof (cases r1)
  case (Inl e)
  then show ?thesis using inf dp by (simp add: infer_def)
next
  case (Inr p)
  obtain i d c where p: "p = (i, d, c)" by (cases p) auto
  show ?thesis
  proof (cases "current_model st")
    case None
    then show ?thesis using inf dp Inr p by (simp add: infer_def)
  next
    case (Some m)
    show ?thesis
    proof (cases "model_eval env m (eval_arguments s i c d an)")
      case (Inl e)
      then show ?thesis using inf dp Inr p Some by (simp add: infer_def)
    next
      case me: (Inr q)
      obtain y_data flows where q: "q = (y_data, flows)" by (cases q) auto
      show ?thesis
      proof (cases "post_process s x y_data")
        case (Inl e)
        then show ?thesis using inf dp Inr p Some me q by (simp add: infer_def)
      next
        case pp: (Inr y)
        then show ?thesis using inf dp Inr p Some me q by (simp add: infer_def)
      qed
    qed
  qed
qed

lemma infer_args:
  assumes "infer env s st x x_data channels diam an = (r, evs)"
    and "a \<in> set (model_eval_calls evs)"
  shows "\<exists>i. a = eval_arguments s i
            (if recon_model st \<noteq> None \<and> mode s \<noteq> ''nuclei'' \<and> supply_nuclei s
             then (0, 1) else channels)
            (if recon_model st = None then diam
             else if denoise_type s = ''upsample_cyto3'' then Some 30
             else if denoise_type s = ''upsample_nuclei'' then Some 17
             else diam) an
          \<and> (recon_model st = None \<longrightarrow> i = x_data)"
proof -
  obtain r1 ev1 where dp: "denoise_pass env s st x_data channels diam = (r1, ev1)"
    by (cases "denoise_pass env s st x_data channels diam")
  have ev1: "model_eval_calls ev1 = []"
    using denoise_pass_events[of env s st x_data channels diam] dp by simp
  from infer_trace[OF assms(1) dp] assms(2) ev1
  obtain i d c where r1: "r1 = Inr (i, d, c)" and a: "a = eval_arguments s i c d an"
    by auto
  have d: "d = (if recon_model st = None then diam
              else if denoise_type s = ''upsample_cyto3'' then Some 30
              else if denoise_type s = ''upsample_nuclei'' then Some 17
              else diam)"
    and c: "c = (if recon_model st \<noteq> None \<and> mode s \<noteq> ''nuclei'' \<and> supply_nuclei s
              then (0, 1) else channels)"
    and i: "recon_model st = None \<Longrightarrow> i = x_data"
    using denoise_pass_result[OF dp[unfolded r1]] by blast+
  show ?thesis
    by (rule exI[of _ i]) (use a d c i in blast)
qed

lemma infer_ok:
  assumes "infer env s st x x_data channels diam an = (Inr (y, flows, inp), evs)"
  shows "\<exists>m a y_data. current_model st = Some m \<and> model_eval_calls evs = [a]
          \<and> model_eval env m a = Inr (y_data, flows) \<and> post_process s x y_data = Inr y"
proof -
  obtain r1 ev1 where dp: "denoise_pass env s st x_data channels diam = (r1, ev1)"
    by (cases "denoise_pass env s st x_data channels diam")
  have ev1: "model_eval_calls ev1 = []"
    using denoise_pass_events[of env s st x_data channels diam] dp by simp
  show ?thesis
    using assms dp ev1
    by (auto simp: infer_def Let_def split: sum.splits prod.splits option.splits)
qed

text \<open>A run that issued an inference call got past every check before it.\<close>

lemma run_inference:
  assumes "run env s st ws = (r, st', ws', evs)"
    and "model_eval_calls evs \<noteq> [] \<or> denoise_eval_calls evs \<noteq> []"
  shows "\<exists>x an x_data channels u ev1 r2 ev2.
           get_image ws (x_name s) = Inr x \<and> \<not> multichannel x
         \<and> anisotropy_of s x = Inr an
         \<and> compose s ws x = Inr (x_data, channels)
         \<and> load_models env s st = (Inr u, st', ev1)
         \<and> infer env s st' x x_data channels (resolve_diameter s) an = (r2, ev2)
         \<and> model_eval_calls evs = model_eval_calls ev2
         \<and> denoise_eval_calls evs = denoise_eval_calls ev2
         \<and> evs = ev1 @ ev2 @ (if use_gpu s then [Empty_cache] else [])"
proof (cases "get_image ws (x_name s)")
  case (Inl e) then show ?thesis using assms by (simp add: run_def)
next
  case x: (Inr x)
  show ?thesis
  proof (cases "anisotropy_of s x")
    case (Inl e) then show ?thesis using assms x by (simp add: run_def)
  next
    case an: (Inr an)
    show ?thesis
    proof (cases "multichannel x")
      case True then show ?thesis using assms x an by (simp add: run_def)
    next
      case mc: False
      show ?thesis
      proof (cases "compose s ws x")
        case (Inl e) then show ?thesis using assms x an mc by (simp add: run_def)
      next
        case (Inr p)
        then obtain x_data channels where co: "compose s ws x = Inr (x_data, channels)"
          by (cases p) simp
        obtain r1 st1 ev1 where lm: "load_models env s st = (r1, st1, ev1)"
          by (cases "load_models env s st")
        note ne = load_models_no_eval[OF lm]
        show ?thesis
        proof (cases r1)
          case (Inl e) then show ?thesis using assms x an mc co lm ne by (simp add: run_def)
        next
          case u: (Inr u)
          obtain r2 ev2 where inf: "infer env s st1 x x_data channels (resolve_diameter s) an = (r2, ev2)"
            by (cases "infer env s st1 x x_data channels (resolve_diameter s) an")
          have "st' = st1 \<and> evs = ev1 @ ev2 @ (if use_gpu s then [Empty_cache] else [])"
            using assms(1) x an mc co lm u inf
            by (auto simp: run_def Let_def split: sum.splits prod.splits)
          then have "get_image ws (x_name s) = Inr x \<and> \<not> multichannel x
               \<and> anisotropy_of s x = Inr an
               \<and> compose s ws x = Inr (x_data, channels)
               \<and> load_models env s st = (Inr u, st', ev1)
               \<and> infer env s st' x x_data channels (resolve_diameter s) an = (r2, ev2)
               \<and> model_eval_calls evs = model_eval_calls ev2
               \<and> denoise_eval_calls evs = denoise_eval_calls ev2
               \<and> evs = ev1 @ ev2 @ (if use_gpu s then [Empty_cache] else [])"
            using x an mc co lm u inf ne by simp
          then show ?thesis by blast
        qed
      qed
    qed
  qed
qed

lemma compose_channels:
  assumes "compose s ws x = Inr (x_data, channels)"
  shows "channels = (if mode s \<noteq> ''nuclei'' \<and> supply_nuclei s then (2, 3) else (0, 0))"
  using assms by (auto simp: compose_def split: if_splits sum.splits)

lemma run_args:
  assumes run: "run env s st ws = (r, st', ws', evs)"
    and a: "a \<in> set (model_eval_calls evs)"
  shows "\<exists>i an. a = eval_arguments s i
            (if denoise_eval_calls evs \<noteq> [] then
               (if mode s \<noteq> ''nuclei'' \<and> supply_nuclei s then (0, 1) else (0, 0))
             else (if mode s \<noteq> ''nuclei'' \<and> supply_nuclei s then (2, 3) else (0, 0)))
            (if denoise_eval_calls evs = [] then resolve_diameter s
             else if denoise_type s = ''upsample_cyto3'' then Some 30
             else if denoise_type s = ''upsample_nuclei'' then Some 17
             else resolve_diameter s) an"
proof -
  from a have "model_eval_calls evs \<noteq> [] \<or> denoise_eval_calls evs \<noteq> []" by auto
  from run_inference[OF run this]
  obtain x an x_data channels u ev1 r2 ev2 where
    co: "compose s ws x = Inr (x_data, channels)"
    and inf: "infer env s st' x x_data channels (resolve_diameter s) an = (r2, ev2)"
    and me: "model_eval_calls evs = model_eval_calls ev2"
    and de: "denoise_eval_calls evs = denoise_eval_calls ev2"
    by blast
  have ch: "channels = (if mode s \<noteq> ''nuclei'' \<and> supply_nuclei s then (2, 3) else (0, 0))"
    by (rule compose_channels[OF co])
  have rc: "(denoise_eval_calls evs = []) = (recon_model st' = None)"
    using infer_events(1)[OF inf] de by simp
  from infer_args[OF inf] a me obtain i where
    "a = eval_arguments s i
            (if recon_model st' \<noteq> None \<and> mode s \<noteq> ''nuclei'' \<and> supply_nuclei s
             then (0, 1) else channels)
            (if recon_model st' = None then resolve_diameter s
             else if denoise_type s = ''upsample_cyto3'' then Some 30
             else if denoise_type s = ''upsample_nuclei'' then Some 17
             else resolve_diameter s) an"
    by auto
  then have "a = eval_arguments s i
            (if denoise_eval_calls evs \<noteq> [] then
               (if mode s \<noteq> ''nuclei'' \<and> supply_nuclei s then (0, 1) else (0, 0))
             else (if mode s \<noteq> ''nuclei'' \<and> supply_nuclei s then (2, 3) else (0, 0)))
            (if denoise_eval_calls evs = [] then resolve_diameter s
             else if denoise_type s = ''upsample_cyto3'' then Some 30
             else if denoise_type s = ''upsample_nuclei'' then Some 17
             else resolve_diameter s) an"
    using ch rc by (simp split: if_splits)
  then show ?thesis by blast
qed

lemma run_denoise_args:
  assumes run: "run env s st ws = (r, st', ws', evs)"
    and c: "(t, d, c) \<in> set (denoise_eval_calls evs)"
  shows "d = resolve_diameter s
       \<and> c = (if mode s \<noteq> ''nuclei'' \<and> supply_nuclei s then (2, 3) else (0, 0))
       \<and> denoise s"
proof -
  from c have "model_eval_calls evs \<noteq> [] \<or> denoise_eval_calls evs \<noteq> []" by auto
  from run_inference[OF run this]
  obtain x an x_data channels u ev1 r2 ev2 where
    co: "compose s ws x = Inr (x_data, channels)"
    and lm: "load_models env s st = (Inr u, st', ev1)"
    and inf: "infer env s st' x x_data channels (resolve_diameter s) an = (r2, ev2)"
    and de: "denoise_eval_calls evs = denoise_eval_calls ev2"
    by blast
  have ch: "channels = (if mode s \<noteq> ''nuclei'' \<and> supply_nuclei s then (2, 3) else (0, 0))"
    by (rule compose_channels[OF co])
  have rc: "recon_model st' \<noteq> None" "(t, d, c) = (x_data, resolve_diameter s, channels)"
    using infer_events(1)[OF inf] de c by (auto split: if_splits)
  from load_models_recon[OF lm rc(1)] rc(2) ch show ?thesis by simp
qed

lemma run_one_call:
  assumes run: "run env s st ws = (r, st', ws', evs)"
  shows "length (model_eval_calls evs) \<le> 1"
proof (cases "model_eval_calls evs = []")
  case True then show ?thesis by simp
next
  case False
  then have "model_eval_calls evs \<noteq> [] \<or> denoise_eval_calls evs \<noteq> []" by simp
  from run_inference[OF run this] infer_events(2) show ?thesis by metis
qed

lemma run_collapse:
  "run env s st ws = (outcome_of (run env s st ws), state_of (run env s st ws),
                      workspace_of (run env s st ws), trace_of (run env s st ws))"
  by (simp add: outcome_of_def state_of_def workspace_of_def trace_of_def)

subsection \<open>The diameter passed to the segmentation call\<close>

text \<open>Claim C3 (diameter after an upsampling denoiser). In every run in which a denoiser
  was applied, the diameter passed to the segmentation call that follows is 30 when the
  denoiser is \<open>upsample_cyto3\<close> and 17 when it is \<open>upsample_nuclei\<close>, whatever diameter
  the user requested; for every other denoiser it is the diameter resolved from the
  user's setting, not overridden.\<close>

theorem upsampling_diameter_override:
  assumes "run env s st ws = (r, st', ws', evs)"
    and "denoise_eval_calls evs \<noteq> []"
    and "a \<in> set (model_eval_calls evs)"
  shows "(denoise_type s = ''upsample_cyto3'' \<longrightarrow> arg_diameter a = Some 30)
       \<and> (denoise_type s = ''upsample_nuclei'' \<longrightarrow> arg_diameter a = Some 17)
       \<and> (denoise_type s \<noteq> ''upsample_cyto3'' \<and> denoise_type s \<noteq> ''upsample_nuclei'' \<longrightarrow>
            arg_diameter a = resolve_diameter s)"
proof -
  from run_args[OF assms(1,3)] assms(2) obtain i an where
    "a = eval_arguments s i
            (if mode s \<noteq> ''nuclei'' \<and> supply_nuclei s then (0, 1) else (0, 0))
            (if denoise_type s = ''upsample_cyto3'' then Some 30
             else if denoise_type s = ''upsample_nuclei'' then Some 17
             else resolve_diameter s) an"
    by auto
  then show ?thesis by (simp add: eval_arguments_def)
qed

theorem upsampling_diameter_override_witness:
  "denoise_eval_calls (trace_of (run (demo_provider demo_labels)
       (default_settings\<lparr>expected_diameter := 12, denoise := True,
                          denoise_type := ''upsample_cyto3''\<rparr>) init demo_workspace)) \<noteq> []
   \<and> map arg_diameter (model_eval_calls (trace_of (run (demo_provider demo_labels)
       (default_settings\<lparr>expected_diameter := 12, denoise := True,
                          denoise_type := ''upsample_cyto3''\<rparr>) init demo_workspace)))
       = [Some 30]
   \<and> map arg_diameter (model_eval_calls (trace_of (run (demo_provider demo_labels)
       (default_settings\<lparr>expected_diameter := 12, denoise := True,
                          denoise_type := ''upsample_nuclei''\<rparr>) init demo_workspace)))
       = [Some 17]
   \<and> map arg_diameter (model_eval_calls (trace_of (run (demo_provider demo_labels)
       (default_settings\<lparr>expected_diameter := 12, denoise := True,
                          denoise_type := ''deblur_cyto3''\<rparr>) init demo_workspace)))
       = [Some 12]"
proof -
  let ?s = "default_settings\<lparr>expected_diameter := 12, denoise := True,
                          denoise_type := ''upsample_cyto3''\<rparr>"
  let ?R = "run (demo_provider demo_labels) ?s init demo_workspace"
  have d: "denoise_eval_calls (trace_of ?R) \<noteq> []" by code_simp
  have n: "length (model_eval_calls (trace_of ?R)) = 1" by code_simp
  then obtain a where a: "model_eval_calls (trace_of ?R) = [a]"
    by (cases "model_eval_calls (trace_of ?R)") auto
  have "arg_diameter a = Some 30"
    using upsampling_diameter_override[OF run_collapse d, of a] a
    by (simp add: default_settings_def)
  moreover have "map arg_diameter (model_eval_calls (trace_of (run (demo_provider demo_labels)
       (default_settings\<lparr>expected_diameter := 12, denoise := True,
                          denoise_type := ''upsample_nuclei''\<rparr>) init demo_workspace)))
       = [Some 17]" by code_simp
  moreover have "map arg_diameter (model_eval_calls (trace_of (run (demo_provider demo_labels)
       (default_settings\<lparr>expected_diameter := 12, denoise := True,
                          denoise_type := ''deblur_cyto3''\<rparr>) init demo_workspace)))
       = [Some 12]" by code_simp
  ultimately show ?thesis using d a by simp
qed

text \<open>Claim C2, as stated, fails: with the non-sized family \<open>cyto2_cp3\<close> in 2D mode,
  and with a sized family in 3D mode, an expected diameter of 0 is not rejected and the
  segmentation call receives an unset diameter, not the literal 0.\<close>

theorem diameter_zero_counterexample:
  "''cyto2_cp3'' \<notin> set SIZED_MODELS
   \<and> expected_diameter (default_settings\<lparr>mode := ''cyto2_cp3'', expected_diameter := 0\<rparr>) = 0
   \<and> outcome_of (run (demo_provider demo_labels)
        (default_settings\<lparr>mode := ''cyto2_cp3'', expected_diameter := 0\<rparr>)
        init demo_workspace) = Inr ()
   \<and> map arg_diameter (model_eval_calls (trace_of (run (demo_provider demo_labels)
        (default_settings\<lparr>mode := ''cyto2_cp3'', expected_diameter := 0\<rparr>)
        init demo_workspace))) = [None]
   \<and> outcome_of (run (demo_provider demo_labels)
        (default_settings\<lparr>do_3D := True, expected_diameter := 0\<rparr>)
        init demo_workspace) = Inr ()
   \<and> map arg_diameter (model_eval_calls (trace_of (run (demo_provider demo_labels)
        (default_settings\<lparr>do_3D := True, expected_diameter := 0\<rparr>)
        init demo_workspace))) = [None]"
  by code_simp

text \<open>Claim C2, amended. An expected diameter of 0 is translated to an unset (None)
  diameter for every model family and in 2D and 3D mode alike: the denoiser call receives
  None, and the segmentation call receives None, or the constant 30 or 17 of an upsampling
  denoiser that was applied; the literal 0 is never passed to the model provider.\<close>

theorem diameter_zero_unset_for_every_family:
  assumes "run env s st ws = (r, st', ws', evs)" and "expected_diameter s = 0"
  shows "(\<forall>t d c. (t, d, c) \<in> set (denoise_eval_calls evs) \<longrightarrow> d = None)
       \<and> (\<forall>a \<in> set (model_eval_calls evs).
            arg_diameter a \<noteq> Some 0
          \<and> (arg_diameter a = None
             \<or> denoise_eval_calls evs \<noteq> []
               \<and> (denoise_type s = ''upsample_cyto3'' \<and> arg_diameter a = Some 30
                  \<or> denoise_type s = ''upsample_nuclei'' \<and> arg_diameter a = Some 17)))"
proof (intro conjI allI impI ballI)
  fix t d c assume "(t, d, c) \<in> set (denoise_eval_calls evs)"
  from run_denoise_args[OF assms(1) this] assms(2)
  show "d = None" by (simp add: resolve_diameter_def)
next
  fix a assume a: "a \<in> set (model_eval_calls evs)"
  from run_args[OF assms(1) a] obtain i an where
    e: "a = eval_arguments s i
            (if denoise_eval_calls evs \<noteq> [] then
               (if mode s \<noteq> ''nuclei'' \<and> supply_nuclei s then (0, 1) else (0, 0))
             else (if mode s \<noteq> ''nuclei'' \<and> supply_nuclei s then (2, 3) else (0, 0)))
            (if denoise_eval_calls evs = [] then resolve_diameter s
             else if denoise_type s = ''upsample_cyto3'' then Some 30
             else if denoise_type s = ''upsample_nuclei'' then Some 17
             else resolve_diameter s) an"
    by blast
  have z: "resolve_diameter s = None" using assms(2) by (simp add: resolve_diameter_def)
  show "arg_diameter a \<noteq> Some 0"
    by (subst e) (simp add: eval_arguments_def z)
  show "arg_diameter a = None
             \<or> denoise_eval_calls evs \<noteq> []
               \<and> (denoise_type s = ''upsample_cyto3'' \<and> arg_diameter a = Some 30
                  \<or> denoise_type s = ''upsample_nuclei'' \<and> arg_diameter a = Some 17)"
    by (subst (1 2 3) e) (simp add: eval_arguments_def z)
qed

theorem diameter_zero_unset_for_every_family_witness:
  "expected_diameter (default_settings\<lparr>mode := ''cyto2_cp3'', do_3D := True,
                                     expected_diameter := 0\<rparr>) = 0
   \<and> ''cyto2_cp3'' \<notin> set SIZED_MODELS
   \<and> map arg_diameter (model_eval_calls (trace_of (run (demo_provider demo_labels)
        (default_settings\<lparr>mode := ''cyto2_cp3'', do_3D := True, expected_diameter := 0\<rparr>)
        init demo_workspace))) = [None]"
proof -
  let ?s = "default_settings\<lparr>mode := ''cyto2_cp3'', do_3D := True, expected_diameter := 0\<rparr>"
  let ?R = "run (demo_provider demo_labels) ?s init demo_workspace"
  have z: "expected_diameter ?s = 0" by simp
  have n: "length (model_eval_calls (trace_of ?R)) = 1" by code_simp
  then obtain a where a: "model_eval_calls (trace_of ?R) = [a]"
    by (cases "model_eval_calls (trace_of ?R)") auto
  have d: "denoise_eval_calls (trace_of ?R) = []" by code_simp
  have "arg_diameter a = None"
    using diameter_zero_unset_for_every_family[where env="demo_provider demo_labels"
        and s="?s" and st=init and ws=demo_workspace, OF run_collapse z] a d
    by simp
  moreover have "''cyto2_cp3'' \<notin> set SIZED_MODELS" by code_simp
  ultimately show ?thesis using a z by simp
qed

subsection \<open>The channel pair passed to the segmentation call\<close>

text \<open>Claim C4, as stated, fails: in an auxiliary-image run with the denoiser
  \<open>denoise_cyto3\<close>, which is not an upsampling variant, the denoiser receives the pair
  (2,3) and the segmentation call receives the collapsed pair (0,1).\<close>

theorem channel_collapse_counterexample:
  "denoise_type (default_settings\<lparr>supply_nuclei := True, denoise := True\<rparr>) = ''denoise_cyto3''
   \<and> \<not> str_in ''upsample'' (denoise_type (default_settings\<lparr>supply_nuclei := True, denoise := True\<rparr>))
   \<and> map (snd \<circ> snd) (denoise_eval_calls (trace_of (run (demo_provider demo_labels)
        (default_settings\<lparr>supply_nuclei := True, denoise := True\<rparr>) init demo_workspace)))
       = [(2, 3)]
   \<and> map arg_channels (model_eval_calls (trace_of (run (demo_provider demo_labels)
        (default_settings\<lparr>supply_nuclei := True, denoise := True\<rparr>) init demo_workspace)))
       = [(0, 1)]"
  by code_simp

text \<open>Claim C4, amended. In an auxiliary-image run the denoiser, when there is one,
  receives the composed pair (2,3), and the channel pair passed to the segmentation call
  is collapsed to (0,1) if and only if a denoiser, of any variant, consumed the tensor;
  without a denoiser it is (2,3). In a run whose composed tensor carries no auxiliary
  channel the pair is (0,0), unchanged.\<close>

theorem channels_collapse_after_any_denoiser:
  assumes "run env s st ws = (r, st', ws', evs)"
    and "a \<in> set (model_eval_calls evs)"
  shows "(mode s \<noteq> ''nuclei'' \<and> supply_nuclei s \<longrightarrow>
            (\<forall>t d c. (t, d, c) \<in> set (denoise_eval_calls evs) \<longrightarrow> c = (2, 3))
          \<and> (arg_channels a = (0, 1)) = (denoise_eval_calls evs \<noteq> [])
          \<and> (denoise_eval_calls evs = [] \<longrightarrow> arg_channels a = (2, 3)))
       \<and> (\<not> (mode s \<noteq> ''nuclei'' \<and> supply_nuclei s) \<longrightarrow> arg_channels a = (0, 0))"
proof -
  from run_args[OF assms] obtain i an where
    e: "a = eval_arguments s i
            (if denoise_eval_calls evs \<noteq> [] then
               (if mode s \<noteq> ''nuclei'' \<and> supply_nuclei s then (0, 1) else (0, 0))
             else (if mode s \<noteq> ''nuclei'' \<and> supply_nuclei s then (2, 3) else (0, 0)))
            (if denoise_eval_calls evs = [] then resolve_diameter s
             else if denoise_type s = ''upsample_cyto3'' then Some 30
             else if denoise_type s = ''upsample_nuclei'' then Some 17
             else resolve_diameter s) an"
    by blast
  have ch: "arg_channels a =
            (if denoise_eval_calls evs \<noteq> [] then
               (if mode s \<noteq> ''nuclei'' \<and> supply_nuclei s then (0, 1) else (0, 0))
             else (if mode s \<noteq> ''nuclei'' \<and> supply_nuclei s then (2, 3) else (0, 0)))"
    by (subst e) (simp add: eval_arguments_def)
  have dn: "c = (2, 3)"
    if "(t, d, c) \<in> set (denoise_eval_calls evs)" "mode s \<noteq> ''nuclei'' \<and> supply_nuclei s"
    for t d c
    using run_denoise_args[OF assms(1) that(1)] that(2) by simp
  show ?thesis using ch dn by auto
qed

theorem channels_collapse_after_any_denoiser_witness:
  "mode (default_settings\<lparr>supply_nuclei := True, denoise := True, denoise_type := ''deblur_nuclei''\<rparr>)
     \<noteq> ''nuclei''
   \<and> supply_nuclei (default_settings\<lparr>supply_nuclei := True, denoise := True,
                                     denoise_type := ''deblur_nuclei''\<rparr>)
   \<and> denoise_eval_calls (trace_of (run (demo_provider demo_labels)
        (default_settings\<lparr>supply_nuclei := True, denoise := True,
                           denoise_type := ''deblur_nuclei''\<rparr>) init demo_workspace)) \<noteq> []
   \<and> map arg_channels (model_eval_calls (trace_of (run (demo_provider demo_labels)
        (default_settings\<lparr>supply_nuclei := True, denoise := True,
                           denoise_type := ''deblur_nuclei''\<rparr>) init demo_workspace)))
       = [(0, 1)]
   \<and> map arg_channels (model_eval_calls (trace_of (run (demo_provider demo_labels)
        (default_settings\<lparr>supply_nuclei := True\<rparr>) init demo_workspace)))
       = [(2, 3)]"
proof -
  let ?s = "default_settings\<lparr>supply_nuclei := True, denoise := True,
                             denoise_type := ''deblur_nuclei''\<rparr>"
  let ?R = "run (demo_provider demo_labels) ?s init demo_workspace"
  have aux: "mode ?s \<noteq> ''nuclei'' \<and> supply_nuclei ?s" by (simp add: default_settings_def)
  have d: "denoise_eval_calls (trace_of ?R) \<noteq> []" by code_simp
  have n: "length (model_eval_calls (trace_of ?R)) = 1" by code_simp
  then obtain a where a: "model_eval_calls (trace_of ?R) = [a]"
    by (cases "model_eval_calls (trace_of ?R)") auto
  then have m: "a \<in> set (model_eval_calls (trace_of ?R))" by simp
  have "arg_channels a = (0, 1)"
    using channels_collapse_after_any_denoiser[OF run_collapse m] aux d by blast
  moreover have "map arg_channels (model_eval_calls (trace_of (run (demo_provider demo_labels)
        (default_settings\<lparr>supply_nuclei := True\<rparr>) init demo_workspace)))
       = [(2, 3)]" by code_simp
  ultimately show ?thesis using aux d a by simp
qed

subsection \<open>The 3D flag and the stitch threshold\<close>

text \<open>Claim C6, as stated, fails: with the 3D setting on and the stitch-threshold setting
  still holding 1/2, the one segmentation call of the run receives a true 3D flag and the
  positive stitch threshold 1/2 together.\<close>

theorem stitch_with_3D_counterexample:
  "map arg_do_3D (model_eval_calls (trace_of (run (demo_provider demo_labels)
        (default_settings\<lparr>do_3D := True, stitch_threshold := 1 / 2\<rparr>) init demo_workspace)))
     = [True]
   \<and> map arg_stitch_threshold (model_eval_calls (trace_of (run (demo_provider demo_labels)
        (default_settings\<lparr>do_3D := True, stitch_threshold := 1 / 2\<rparr>) init demo_workspace)))
     = [1 / 2]
   \<and> (0 :: real) < 1 / 2"
  by code_simp

text \<open>Claim C6, amended. A run issues at most one segmentation call; the 3D flag passed
  to it is the 3D setting and the stitch threshold passed to it is the stitch-threshold
  setting, both unmodified. The two are kept apart in the settings view only: the stitch
  threshold is among the visible settings exactly when the 3D setting is off.\<close>

theorem stitch_and_3D_passed_unmodified:
  assumes "run env s st ws = (r, st', ws', evs)"
    and "a \<in> set (model_eval_calls evs)"
  shows "arg_do_3D a = do_3D s \<and> arg_stitch_threshold a = stitch_threshold s
       \<and> length (model_eval_calls evs) \<le> 1
       \<and> (''stitch_threshold'' \<in> set (visible_settings s)) = (\<not> do_3D s)"
proof -
  from run_args[OF assms] obtain i c d an where e: "a = eval_arguments s i c d an"
    by blast
  have "arg_do_3D a = do_3D s \<and> arg_stitch_threshold a = stitch_threshold s"
    by (subst (1 2) e) (simp add: eval_arguments_def)
  moreover have "(''stitch_threshold'' \<in> set (visible_settings s)) = (\<not> do_3D s)"
    by (simp add: visible_settings_def)
  ultimately show ?thesis using run_one_call[OF assms(1)] by simp
qed

theorem stitch_and_3D_passed_unmodified_witness:
  "map arg_do_3D (model_eval_calls (trace_of (run (demo_provider demo_labels)
        (default_settings\<lparr>stitch_threshold := 1 / 2\<rparr>) init demo_workspace))) = [False]
   \<and> map arg_stitch_threshold (model_eval_calls (trace_of (run (demo_provider demo_labels)
        (default_settings\<lparr>stitch_threshold := 1 / 2\<rparr>) init demo_workspace))) = [1 / 2]
   \<and> ''stitch_threshold'' \<in> set (visible_settings (default_settings\<lparr>stitch_threshold := 1 / 2\<rparr>))
   \<and> ''stitch_threshold'' \<notin> set (visible_settings (default_settings\<lparr>do_3D := True\<rparr>))"
proof -
  let ?s = "default_settings\<lparr>stitch_threshold := 1 / 2\<rparr>"
  let ?R = "run (demo_provider demo_labels) ?s init demo_workspace"
  have n: "length (model_eval_calls (trace_of ?R)) = 1" by code_simp
  then obtain a where a: "model_eval_calls (trace_of ?R) = [a]"
    by (cases "model_eval_calls (trace_of ?R)") auto
  then have m: "a \<in> set (model_eval_calls (trace_of ?R))" by simp
  have "arg_do_3D a = False \<and> arg_stitch_threshold a = 1 / 2
        \<and> ''stitch_threshold'' \<in> set (visible_settings ?s)"
    using stitch_and_3D_passed_unmodified[OF run_collapse m]
    by (simp add: default_settings_def)
  moreover have "''stitch_threshold'' \<notin> set (visible_settings (default_settings\<lparr>do_3D := True\<rparr>))"
    by (simp add: visible_settings_def)
  ultimately show ?thesis using a by simp
qed

subsection \<open>Multichannel images\<close>

text \<open>Claim C9 (multichannel primary image). A run whose primary image is multichannel
  fails with an error before anything else happens: the trace of external calls is empty
  (no model load, no denoising call, no segmentation call), the workspace is unchanged
  (no objects and no probability image added) and the cached models are unchanged. The
  error is the ValueError of the colour-image check, unless the anisotropy of line 440,
  computed before that check, has already failed on the image's spacing.\<close>

theorem multichannel_rejected_before_inference:
  assumes "get_image ws (x_name s) = Inr x" and "multichannel x"
  shows "(\<exists>e. outcome_of (run env s st ws) = Inl e)
       \<and> ((\<exists>an. anisotropy_of s x = Inr an) \<longrightarrow>
            outcome_of (run env s st ws) =
              Inl (ValueError ''Color images are not currently supported. Please provide greyscale images.''))
       \<and> trace_of (run env s st ws) = []
       \<and> model_loads (trace_of (run env s st ws)) = 0
       \<and> model_eval_calls (trace_of (run env s st ws)) = []
       \<and> denoise_eval_calls (trace_of (run env s st ws)) = []
       \<and> workspace_of (run env s st ws) = ws
       \<and> state_of (run env s st ws) = st"
  using assms
  by (cases "anisotropy_of s x")
     (simp_all add: run_def outcome_of_def trace_of_def workspace_of_def state_of_def
        model_loads_def)

theorem multichannel_rejected_before_inference_witness:
  "get_image (demo_workspace\<lparr>image_set := [''cells'' \<mapsto> demo_color_image]\<rparr>)
     (x_name default_settings) = Inr demo_color_image
   \<and> multichannel demo_color_image
   \<and> outcome_of (run (demo_provider demo_labels) default_settings init
        (demo_workspace\<lparr>image_set := [''cells'' \<mapsto> demo_color_image]\<rparr>)) =
       Inl (ValueError ''Color images are not currently supported. Please provide greyscale images.'')
   \<and> trace_of (run (demo_provider demo_labels) default_settings init
        (demo_workspace\<lparr>image_set := [''cells'' \<mapsto> demo_color_image]\<rparr>)) = []
   \<and> objects_added (workspace_of (run (demo_provider demo_labels) default_settings init
        (demo_workspace\<lparr>image_set := [''cells'' \<mapsto> demo_color_image]\<rparr>))) = []"
  using multichannel_rejected_before_inference[of
      "demo_workspace\<lparr>image_set := [''cells'' \<mapsto> demo_color_image]\<rparr>"
      default_settings demo_color_image "demo_provider demo_labels" init]
  by (simp add: get_image_def default_settings_def demo_workspace_def demo_color_image_def
      anisotropy_of_def)

subsection \<open>Indexing arrays\<close>

lemma length_concat_blocks:
  "\<forall>x\<in>set xs. length (f x) = L \<Longrightarrow> length (concat (map f xs)) = length xs * L"
  by (induction xs) simp_all

lemma nth_concat_blocks:
  "\<forall>x\<in>set xs. length (f x) = L \<Longrightarrow> j < length xs \<Longrightarrow> r < L \<Longrightarrow>
     concat (map f xs) ! (j * L + r) = f (xs ! j) ! r"
proof (induction xs arbitrary: j)
  case Nil
  then show ?case by simp
next
  case (Cons x xs)
  show ?case
  proof (cases j)
    case 0
    then show ?thesis using Cons.prems by (simp add: nth_append)
  next
    case (Suc j')
    have "concat (map f (x # xs)) ! (j * L + r) = concat (map f xs) ! (j' * L + r)"
      using Cons.prems Suc by (simp add: nth_append)
    also have "\<dots> = f (xs ! j') ! r"
      using Cons.prems Suc by (intro Cons.IH) auto
    finally show ?thesis using Suc by simp
  qed
qed

lemma upt_blocks:
  "concat (map (\<lambda>i. map (\<lambda>r. i * P + r) [0..<P]) [0..<n]) = [0..<n * P]"
proof (induction n)
  case 0
  then show ?case by simp
next
  case (Suc n)
  have a: "map (\<lambda>r. n * P + r) [0..<P] = [n * P..<n * P + P]"
    using map_add_upt[of "n * P" P] by (simp add: add.commute)
  have b: "[0..<n * P + P] = [0..<n * P] @ [n * P..<n * P + P]"
    by (rule upt_add_eq_append) simp
  have "concat (map (\<lambda>i. map (\<lambda>r. i * P + r) [0..<P]) [0..<Suc n]) =
        [0..<n * P] @ map (\<lambda>r. n * P + r) [0..<P]"
    using Suc by simp
  also have "\<dots> = [0..<n * P + P]" by (simp only: a b)
  also have "n * P + P = Suc n * P" by simp
  finally show ?case .
qed

lemma map_ravel_indices: "map (ravel s) (indices s) = [0..<prod_list s]"
proof (induction s)
  case Nil
  then show ?case by simp
next
  case (Cons n s)
  have "map (ravel (n # s)) (indices (n # s)) =
        concat (map (\<lambda>i. map (\<lambda>idx. i * prod_list s + ravel s idx) (indices s)) [0..<n])"
    by (simp add: map_concat comp_def)
  also have "\<dots> = concat (map (\<lambda>i. map (\<lambda>r. i * prod_list s + r) (map (ravel s) (indices s))) [0..<n])"
    by (simp add: comp_def)
  also have "\<dots> = [0..<n * prod_list s]"
    by (simp only: Cons.IH upt_blocks)
  finally show ?case by simp
qed

lemma length_indices: "length (indices s) = prod_list s"
  using arg_cong[OF map_ravel_indices, of length s] by simp

lemma ravel_indices: "k < prod_list s \<Longrightarrow> ravel s (indices s ! k) = k"
  using arg_cong[OF map_ravel_indices, of "\<lambda>xs. xs ! k" s] by (simp add: length_indices)

lemma set_indices: "set (indices s) = {idx. in_bounds s idx}"
proof (induction s)
  case Nil
  then show ?case by (auto simp: in_bounds_def)
next
  case (Cons n s)
  have "in_bounds (n # s) idx \<longleftrightarrow> (\<exists>i idx'. idx = i # idx' \<and> i < n \<and> in_bounds s idx')" for idx
    by (auto simp: in_bounds_def list_all2_Cons2)
  then show ?case using Cons by auto
qed

lemma ravel_less: "in_bounds s idx \<Longrightarrow> ravel s idx < prod_list s"
proof -
  assume "in_bounds s idx"
  then have "idx \<in> set (indices s)" by (simp add: set_indices)
  then obtain k where "k < length (indices s)" "indices s ! k = idx"
    by (auto simp: in_set_conv_nth)
  then show ?thesis using ravel_indices[of k s] by (simp add: length_indices)
qed

lemma indices_ravel: "in_bounds s idx \<Longrightarrow> indices s ! ravel s idx = idx"
proof -
  assume "in_bounds s idx"
  then have "idx \<in> set (indices s)" by (simp add: set_indices)
  then obtain k where "k < length (indices s)" "indices s ! k = idx"
    by (auto simp: in_set_conv_nth)
  then show ?thesis using ravel_indices[of k s] by (simp add: length_indices)
qed

lemma ravel_append:
  "length i1 = length s1 \<Longrightarrow>
     ravel (s1 @ s2) (i1 @ i2) = ravel s1 i1 * prod_list s2 + ravel s2 i2"
proof (induction s1 arbitrary: i1)
  case Nil
  then show ?case by simp
next
  case (Cons n s1)
  then obtain i i1' where "i1 = i # i1'" "length i1' = length s1" by (cases i1) auto
  then show ?case using Cons.IH[of i1'] by (simp add: algebra_simps)
qed

subsection \<open>The stacked array\<close>

lemma item_stack_at:
  assumes k: "k \<le> length s"
    and arrs: "\<forall>a\<in>set arrs. shape a = s \<and> length (data a) = prod_list s"
    and c: "c < length arrs"
    and ib: "in_bounds s idx"
  shows "item (stack_at k arrs) (take k idx @ c # drop k idx) = item (arrs ! c) idx"
proof -
  define inner where "inner = prod_list (drop k s)"
  define outer where "outer = prod_list (take k s)"
  define n where "n = length arrs"
  define G where "G = (\<lambda>j (a :: 'a ndarray). take inner (drop (j * inner) (data a)))"
  define F where "F = (\<lambda>j. concat (map (G j) arrs))"
  define ro where "ro = ravel (take k s) (take k idx)"
  define ri where "ri = ravel (drop k s) (drop k idx)"
  have ne: "arrs \<noteq> []" using c by auto
  then have hd: "shape (hd arrs) = s" using arrs by simp
  have ac: "arrs ! c \<in> set arrs" using c by simp
  have len: "length idx = length s"
    using ib by (simp add: in_bounds_def list_all2_lengthD)
  have ib1: "in_bounds (take k s) (take k idx)"
    using ib by (simp add: in_bounds_def list_all2_takeI)
  have ib2: "in_bounds (drop k s) (drop k idx)"
    using ib by (simp add: in_bounds_def list_all2_dropI)
  have ro: "ro < outer" unfolding ro_def outer_def by (rule ravel_less[OF ib1])
  have ri: "ri < inner" unfolding ri_def inner_def by (rule ravel_less[OF ib2])
  have prod: "prod_list s = outer * inner"
    unfolding outer_def inner_def by (simp flip: prod_list.append)
  have "ravel (take k s @ drop k s) (take k idx @ drop k idx) = ro * inner + ri"
    unfolding ro_def ri_def inner_def using len by (intro ravel_append) simp
  then have rav: "ravel s idx = ro * inner + ri" by simp
  have "ravel (take k s @ n # drop k s) (take k idx @ c # drop k idx)
        = ro * prod_list (n # drop k s) + ravel (n # drop k s) (c # drop k idx)"
    unfolding ro_def using len by (intro ravel_append) simp
  then have rav': "ravel (take k s @ n # drop k s) (take k idx @ c # drop k idx)
        = ro * (n * inner) + (c * inner + ri)"
    by (simp add: inner_def ri_def)
  have ib': "in_bounds (take k s @ n # drop k s) (take k idx @ c # drop k idx)"
    using ib1 ib2 c by (simp add: in_bounds_def n_def list_all2_appendI)
  have lenG: "length (G j a) = inner" if "j < outer" "a \<in> set arrs" for j a
  proof -
    have "Suc j * inner \<le> outer * inner" using that(1) by (intro mult_le_mono1) simp
    then have "inner \<le> length (data a) - j * inner"
      using arrs that(2) prod by simp
    then show ?thesis by (simp add: G_def)
  qed
  have lenF: "length (F j) = n * inner" if "j < outer" for j
    unfolding F_def n_def using lenG[OF that] by (intro length_concat_blocks) simp
  have cr: "c * inner + ri < n * inner"
  proof -
    have "Suc c * inner \<le> n * inner" using c by (intro mult_le_mono1) (simp add: n_def)
    then show ?thesis using ri by simp
  qed
  have sdata: "data (stack_at k arrs) = concat (map F [0..<outer])"
    by (simp add: stack_at_def Let_def hd F_def G_def inner_def outer_def)
  have "data (stack_at k arrs) ! (ro * (n * inner) + (c * inner + ri))
        = F ([0..<outer] ! ro) ! (c * inner + ri)"
    unfolding sdata using lenF ro cr by (intro nth_concat_blocks) simp_all
  also have "\<dots> = F ro ! (c * inner + ri)" using ro by simp
  also have "\<dots> = G ro (arrs ! c) ! ri"
    unfolding F_def using lenG[OF ro] c ri by (intro nth_concat_blocks) simp_all
  also have "\<dots> = data (arrs ! c) ! (ro * inner + ri)"
  proof -
    have "ro * inner \<le> outer * inner" using ro by (intro mult_le_mono1) simp
    moreover have "length (data (arrs ! c)) = outer * inner" using arrs ac prod by simp
    ultimately have "ro * inner \<le> length (data (arrs ! c))" by simp
    then show ?thesis using ri by (simp add: G_def)
  qed
  finally have val: "data (stack_at k arrs) ! (ro * (n * inner) + (c * inner + ri))
        = data (arrs ! c) ! ravel s idx"
    using rav by simp
  have sshape: "shape (stack_at k arrs) = take k s @ n # drop k s"
    by (simp add: stack_at_def Let_def hd n_def)
  have "item (stack_at k arrs) (take k idx @ c # drop k idx)
        = Some (data (arrs ! c) ! ravel s idx)"
    using ib' val rav' by (simp add: item_def sshape)
  moreover have "item (arrs ! c) idx = Some (data (arrs ! c) ! ravel s idx)"
    using arrs ac ib by (simp add: item_def)
  ultimately show ?thesis by simp
qed

lemma item_zeros_like:
  assumes "wf_array a" and "in_bounds (shape a) idx"
  shows "item (zeros_like a) idx = Some 0"
  using assms ravel_less[OF assms(2)] by (simp add: item_def zeros_like_def wf_array_def)

lemma compose_plain:
  assumes "compose s ws x = Inr (t, ch)" and "\<not> (mode s \<noteq> ''nuclei'' \<and> supply_nuclei s)"
  shows "t = pixel_data x \<and> ch = (0, 0)"
  using assms by (auto simp: compose_def)

lemma compose_aux:
  assumes "compose s ws x = Inr (t, ch)" and "mode s \<noteq> ''nuclei'' \<and> supply_nuclei s"
  shows "\<exists>nuc. get_image ws (nuclei_image s) = Inr nuc
           \<and> shape (pixel_data nuc) = shape (pixel_data x)
           \<and> ch = (2, 3)
           \<and> (if do_3D s then 1 else length (shape (pixel_data x))) \<le> length (shape (pixel_data x))
           \<and> t = stack_at (if do_3D s then 1 else length (shape (pixel_data x)))
                   [zeros_like (pixel_data x), pixel_data x, pixel_data nuc]"
proof (cases "get_image ws (nuclei_image s)")
  case (Inl e)
  then show ?thesis using assms by (simp add: compose_def)
next
  case (Inr nuc)
  show ?thesis
  proof (cases "do_3D s")
    case True
    then show ?thesis using assms Inr
      by (auto simp: compose_def np_stack_def zeros_like_def Let_def Suc_le_eq
          split: if_splits)
  next
    case False
    then show ?thesis using assms Inr
      by (auto simp: compose_def np_stack_def zeros_like_def Let_def split: if_splits)
  qed
qed

subsection \<open>The channel composer\<close>

lemma inference_calls_append [simp]:
  "inference_calls (xs @ ys) = inference_calls xs @ inference_calls ys"
  by (induction xs rule: inference_calls.induct) simp_all

lemma inference_calls_nonempty:
  "inference_calls evs \<noteq> [] \<Longrightarrow> model_eval_calls evs \<noteq> [] \<or> denoise_eval_calls evs \<noteq> []"
  by (induction evs rule: inference_calls.induct) simp_all

lemma load_models_no_inference:
  assumes "load_models env s st = (r, st', evs)"
  shows "inference_calls evs = []"
  using assms
  by (auto simp: load_models_def Let_def split: if_splits sum.splits prod.splits)

lemma infer_first_call:
  assumes inf: "infer env s st x x_data channels diam an = (r, evs)"
    and ne: "inference_calls evs \<noteq> []"
  shows "hd (inference_calls evs) = (x_data, channels)"
proof -
  obtain r1 ev1 where dp: "denoise_pass env s st x_data channels diam = (r1, ev1)"
    by (cases "denoise_pass env s st x_data channels diam")
  have ev1: "ev1 = (if recon_model st = None then [] else [Denoise_eval x_data diam channels])"
    using denoise_pass_events[of env s st x_data channels diam] dp by simp
  show ?thesis
  proof (cases "recon_model st = None")
    case False
    then have "\<exists>rest. evs = Denoise_eval x_data diam channels # rest"
      using infer_trace[OF inf dp] ev1 by auto
    then show ?thesis by auto
  next
    case True
    then have e: "ev1 = []" using ev1 by simp
    with infer_trace[OF inf dp] ne obtain i d c where
      r1: "r1 = Inr (i, d, c)" and evs: "evs = [Model_eval (eval_arguments s i c d an)]"
      by auto
    from denoise_pass_result[OF dp[unfolded r1]] True
    have "i = x_data" "c = channels" by simp_all
    then show ?thesis using evs by (simp add: eval_arguments_def)
  qed
qed

lemma run_first_call:
  assumes run: "run env s st ws = (r, st', ws', evs)"
    and ne: "inference_calls evs \<noteq> []"
  shows "\<exists>x. get_image ws (x_name s) = Inr x \<and> \<not> multichannel x
           \<and> compose s ws x = Inr (hd (inference_calls evs))"
proof -
  from run_inference[OF run inference_calls_nonempty[OF ne]]
  obtain x an x_data channels u ev1 r2 ev2 where
    x: "get_image ws (x_name s) = Inr x" "\<not> multichannel x"
    and co: "compose s ws x = Inr (x_data, channels)"
    and lm: "load_models env s st = (Inr u, st', ev1)"
    and inf: "infer env s st' x x_data channels (resolve_diameter s) an = (r2, ev2)"
    and evs: "evs = ev1 @ ev2 @ (if use_gpu s then [Empty_cache] else [])"
    by blast
  have "inference_calls evs = inference_calls ev2"
    using evs load_models_no_inference[OF lm] by simp
  then have "hd (inference_calls evs) = (x_data, channels)"
    using infer_first_call[OF inf] ne by simp
  then show ?thesis using x co by simp
qed

lemma stacked_planes:
  assumes k: "k \<le> length (shape px)"
    and wx: "wf_array px" and wn: "wf_array pn"
    and sh: "shape pn = shape px"
    and ib: "in_bounds (shape px) idx"
  shows "item (stack_at k [zeros_like px, px, pn]) (take k idx @ 0 # drop k idx) = Some 0"
    and "item (stack_at k [zeros_like px, px, pn]) (take k idx @ 1 # drop k idx) = item px idx"
    and "item (stack_at k [zeros_like px, px, pn]) (take k idx @ 2 # drop k idx) = item pn idx"
proof -
  have arrs: "\<forall>a\<in>set [zeros_like px, px, pn].
                shape a = shape px \<and> length (data a) = prod_list (shape px)"
    using wx wn sh by (simp add: wf_array_def zeros_like_def)
  have "item (stack_at k [zeros_like px, px, pn]) (take k idx @ 0 # drop k idx)
        = item ([zeros_like px, px, pn] ! 0) idx"
    by (rule item_stack_at[OF k arrs _ ib]) simp
  then show "item (stack_at k [zeros_like px, px, pn]) (take k idx @ 0 # drop k idx) = Some 0"
    using item_zeros_like[OF wx ib] by simp
  have "item (stack_at k [zeros_like px, px, pn]) (take k idx @ 1 # drop k idx)
        = item ([zeros_like px, px, pn] ! 1) idx"
    by (rule item_stack_at[OF k arrs _ ib]) simp
  then show "item (stack_at k [zeros_like px, px, pn]) (take k idx @ 1 # drop k idx) = item px idx"
    by simp
  have "item (stack_at k [zeros_like px, px, pn]) (take k idx @ 2 # drop k idx)
        = item ([zeros_like px, px, pn] ! 2) idx"
    by (rule item_stack_at[OF k arrs _ ib]) simp
  then show "item (stack_at k [zeros_like px, px, pn]) (take k idx @ 2 # drop k idx) = item pn idx"
    by simp
qed

lemma shape_stack_at:
  "arrs \<noteq> [] \<Longrightarrow> shape (stack_at k arrs) = take k (shape (hd arrs)) @ length arrs # drop k (shape (hd arrs))"
  by (simp add: stack_at_def Let_def)

text \<open>Claim C1 (channel composer). In every run that reaches inference the primary image
  is single-channel, and the array and channel pair of the first inference call are these:
  when no auxiliary nuclei image is requested, or the model family is \<open>nuclei\<close>, the
  array is the primary image unchanged and the pair is (0,0); when an auxiliary image is
  supplied and the family is not \<open>nuclei\<close>, the pair is (2,3) and the array is the
  stack of an all-zero plane, the primary image and the auxiliary image along a new axis
  of length 3, placed right after the leading axis in 3D mode and last in 2D mode.\<close>

theorem channel_composer:
  assumes run: "run env s st ws = (r, st', ws', evs)"
    and x: "get_image ws (x_name s) = Inr x"
    and wf: "\<forall>nm img. image_set ws nm = Some img \<longrightarrow> wf_array (pixel_data img)"
    and ne: "inference_calls evs \<noteq> []"
    and hd: "hd (inference_calls evs) = (t, ch)"
  shows "\<not> multichannel x
       \<and> (\<not> supply_nuclei s \<or> mode s = ''nuclei'' \<longrightarrow> t = pixel_data x \<and> ch = (0, 0))
       \<and> (supply_nuclei s \<and> mode s \<noteq> ''nuclei'' \<longrightarrow>
            ch = (2, 3)
          \<and> (\<exists>nuc. get_image ws (nuclei_image s) = Inr nuc
                \<and> (do_3D s \<longrightarrow>
                     (\<exists>depth rest. shape (pixel_data x) = depth # rest
                                 \<and> shape t = depth # 3 # rest)
                   \<and> (\<forall>z idx. in_bounds (shape (pixel_data x)) (z # idx) \<longrightarrow>
                          item t (z # 0 # idx) = Some 0
                        \<and> item t (z # 1 # idx) = item (pixel_data x) (z # idx)
                        \<and> item t (z # 2 # idx) = item (pixel_data nuc) (z # idx)))
                \<and> (\<not> do_3D s \<longrightarrow>
                     shape t = shape (pixel_data x) @ [3]
                   \<and> (\<forall>idx. in_bounds (shape (pixel_data x)) idx \<longrightarrow>
                          item t (idx @ [0]) = Some 0
                        \<and> item t (idx @ [1]) = item (pixel_data x) idx
                        \<and> item t (idx @ [2]) = item (pixel_data nuc) idx))))"
proof -
  from run_first_call[OF run ne] x hd
  have mc: "\<not> multichannel x" and co: "compose s ws x = Inr (t, ch)" by simp_all
  have plain: "t = pixel_data x \<and> ch = (0, 0)" if "\<not> supply_nuclei s \<or> mode s = ''nuclei''"
    using compose_plain[OF co] that by blast
  have aux: "ch = (2, 3)
          \<and> (\<exists>nuc. get_image ws (nuclei_image s) = Inr nuc
                \<and> (do_3D s \<longrightarrow>
                     (\<exists>depth rest. shape (pixel_data x) = depth # rest
                                 \<and> shape t = depth # 3 # rest)
                   \<and> (\<forall>z idx. in_bounds (shape (pixel_data x)) (z # idx) \<longrightarrow>
                          item t (z # 0 # idx) = Some 0
                        \<and> item t (z # 1 # idx) = item (pixel_data x) (z # idx)
                        \<and> item t (z # 2 # idx) = item (pixel_data nuc) (z # idx)))
                \<and> (\<not> do_3D s \<longrightarrow>
                     shape t = shape (pixel_data x) @ [3]
                   \<and> (\<forall>idx. in_bounds (shape (pixel_data x)) idx \<longrightarrow>
                          item t (idx @ [0]) = Some 0
                        \<and> item t (idx @ [1]) = item (pixel_data x) idx
                        \<and> item t (idx @ [2]) = item (pixel_data nuc) idx)))"
    if a: "supply_nuclei s \<and> mode s \<noteq> ''nuclei''"
  proof -
    from a have a': "mode s \<noteq> ''nuclei'' \<and> supply_nuclei s" by simp
    from compose_aux[OF co a'] obtain nuc where
      nuc: "get_image ws (nuclei_image s) = Inr nuc"
      and sh: "shape (pixel_data nuc) = shape (pixel_data x)"
      and ch: "ch = (2, 3)"
      and k: "(if do_3D s then 1 else length (shape (pixel_data x))) \<le> length (shape (pixel_data x))"
      and t: "t = stack_at (if do_3D s then 1 else length (shape (pixel_data x)))
                   [zeros_like (pixel_data x), pixel_data x, pixel_data nuc]"
      by blast
    have wx: "wf_array (pixel_data x)"
      using wf x by (auto simp: get_image_def split: option.splits)
    have wn: "wf_array (pixel_data nuc)"
      using wf nuc by (auto simp: get_image_def split: option.splits)
    have three_d: "(\<exists>depth rest. shape (pixel_data x) = depth # rest
                                 \<and> shape t = depth # 3 # rest)
                   \<and> (\<forall>z idx. in_bounds (shape (pixel_data x)) (z # idx) \<longrightarrow>
                          item t (z # 0 # idx) = Some 0
                        \<and> item t (z # 1 # idx) = item (pixel_data x) (z # idx)
                        \<and> item t (z # 2 # idx) = item (pixel_data nuc) (z # idx))"
      if d: "do_3D s"
    proof -
      from d k have k1: "1 \<le> length (shape (pixel_data x))" by simp
      from d t have t1: "t = stack_at 1 [zeros_like (pixel_data x), pixel_data x, pixel_data nuc]"
        by simp
      from k1 obtain depth rest where s: "shape (pixel_data x) = depth # rest"
        by (cases "shape (pixel_data x)") auto
      have "shape t = depth # 3 # rest"
        unfolding t1 by (simp add: shape_stack_at zeros_like_def s)
      moreover have "item t (z # 0 # idx) = Some 0
                        \<and> item t (z # 1 # idx) = item (pixel_data x) (z # idx)
                        \<and> item t (z # 2 # idx) = item (pixel_data nuc) (z # idx)"
        if ib: "in_bounds (shape (pixel_data x)) (z # idx)" for z idx
        using stacked_planes[OF k1 wx wn sh ib] unfolding t1 by simp
      ultimately show ?thesis using s by blast
    qed
    have two_d: "shape t = shape (pixel_data x) @ [3]
                   \<and> (\<forall>idx. in_bounds (shape (pixel_data x)) idx \<longrightarrow>
                          item t (idx @ [0]) = Some 0
                        \<and> item t (idx @ [1]) = item (pixel_data x) idx
                        \<and> item t (idx @ [2]) = item (pixel_data nuc) idx)"
      if d: "\<not> do_3D s"
    proof -
      from d t have t1: "t = stack_at (length (shape (pixel_data x)))
                             [zeros_like (pixel_data x), pixel_data x, pixel_data nuc]"
        by simp
      have "shape t = shape (pixel_data x) @ [3]"
        unfolding t1 by (simp add: shape_stack_at zeros_like_def)
      moreover have "item t (idx @ [0]) = Some 0
                        \<and> item t (idx @ [1]) = item (pixel_data x) idx
                        \<and> item t (idx @ [2]) = item (pixel_data nuc) idx"
        if ib: "in_bounds (shape (pixel_data x)) idx" for idx
      proof -
        have len: "length idx = length (shape (pixel_data x))"
          using ib by (simp add: in_bounds_def list_all2_lengthD)
        show ?thesis
          using stacked_planes[OF le_refl wx wn sh ib] len unfolding t1 by simp
      qed
      ultimately show ?thesis by blast
    qed
    show ?thesis using ch nuc three_d two_d by blast
  qed
  show ?thesis using mc plain aux by blast
qed

lemma demo_workspace_wf:
  "\<forall>nm img. image_set demo_workspace nm = Some img \<longrightarrow> wf_array (pixel_data img)"
  by (auto simp: demo_workspace_def demo_image_def demo_nuclei_def wf_array_def
      split: if_splits)

lemma demo_volume_workspace_wf:
  "\<forall>nm img. image_set demo_volume_workspace nm = Some img \<longrightarrow> wf_array (pixel_data img)"
  by (auto simp: demo_volume_workspace_def demo_volume_def demo_volume_nuclei_def wf_array_def
      split: if_splits)

theorem channel_composer_witness:
  "hd (inference_calls (trace_of (run (demo_provider demo_labels) default_settings init
         demo_workspace))) = (pixel_data demo_image, (0, 0))
   \<and> hd (inference_calls (trace_of (run (demo_provider demo_labels)
         (default_settings\<lparr>supply_nuclei := True\<rparr>) init demo_workspace)))
      = (\<lparr>shape = [3, 3, 3],
          data = [0, 1, 0, 0, 2, 0, 0, 3, 0, 0, 4, 0, 0, 5, 1, 0, 6, 0, 0, 7, 0, 0, 8, 0,
                  0, 9, 0]\<rparr>, (2, 3))
   \<and> item \<lparr>shape = [3, 3, 3],
          data = [0, 1, 0, 0, 2, 0, 0, 3, 0, 0, 4, 0, 0, 5, 1, 0, 6, 0, 0, 7, 0, 0, 8, 0,
                  0, 9, 0 :: real]\<rparr> [1, 1, 1] = item (pixel_data demo_image) [1, 1]
   \<and> item (pixel_data demo_image) [1, 1] = Some 5
   \<and> hd (inference_calls (trace_of (run (demo_provider demo_volume_labels)
         (default_settings\<lparr>supply_nuclei := True, do_3D := True\<rparr>) init
         demo_volume_workspace)))
      = (\<lparr>shape = [2, 3, 2, 2],
          data = [0, 0, 0, 0, 1, 2, 3, 4, 0, 0, 0, 9, 0, 0, 0, 0, 5, 6, 7, 8, 0, 0, 0, 0]\<rparr>,
         (2, 3))
   \<and> item \<lparr>shape = [2, 3, 2, 2],
          data = [0, 0, 0, 0, 1, 2, 3, 4, 0, 0, 0, 9, 0, 0, 0, 0, 5, 6, 7, 8, 0, 0, 0,
                  0 :: real]\<rparr> [0, 2, 1, 1] = item (pixel_data demo_volume_nuclei) [0, 1, 1]
   \<and> item (pixel_data demo_volume_nuclei) [0, 1, 1] = Some 9"
proof -
  let ?P = "demo_provider demo_labels"
  let ?s = "default_settings\<lparr>supply_nuclei := True\<rparr>"
  let ?Q = "run ?P default_settings init demo_workspace"
  let ?R = "run ?P ?s init demo_workspace"
  let ?T = "\<lparr>shape = [3, 3, 3],
          data = [0, 1, 0, 0, 2, 0, 0, 3, 0, 0, 4, 0, 0, 5, 1, 0, 6, 0, 0, 7, 0, 0, 8, 0,
                  0, 9, 0 :: real]\<rparr>"
  let ?s3 = "default_settings\<lparr>supply_nuclei := True, do_3D := True\<rparr>"
  let ?R3 = "run (demo_provider demo_volume_labels) ?s3 init demo_volume_workspace"
  let ?T3 = "\<lparr>shape = [2, 3, 2, 2],
          data = [0, 0, 0, 0, 1, 2, 3, 4, 0, 0, 0, 9, 0, 0, 0, 0, 5, 6, 7, 8, 0, 0, 0,
                  0 :: real]\<rparr>"
  have x0: "get_image demo_workspace (x_name default_settings) = Inr demo_image"
    by (simp add: get_image_def demo_workspace_def default_settings_def)
  have ne0: "inference_calls (trace_of ?Q) \<noteq> []" by code_simp
  have plain: "\<not> supply_nuclei default_settings" by (simp add: default_settings_def)
  have p0: "hd (inference_calls (trace_of ?Q)) = (pixel_data demo_image, (0, 0))"
    using channel_composer[OF run_collapse x0 demo_workspace_wf ne0 surjective_pairing] plain
    by (simp add: prod_eq_iff)
  have x: "get_image demo_workspace (x_name ?s) = Inr demo_image"
    by (simp add: get_image_def demo_workspace_def default_settings_def)
  have ne: "inference_calls (trace_of ?R) \<noteq> []" by code_simp
  have hd: "hd (inference_calls (trace_of ?R)) = (?T, (2, 3))" by code_simp
  have ib: "in_bounds (shape (pixel_data demo_image)) [1, 1]"
    by (simp add: in_bounds_def demo_image_def)
  have aux: "supply_nuclei ?s \<and> mode ?s \<noteq> ''nuclei''" "\<not> do_3D ?s"
    by (simp_all add: default_settings_def)
  have p2: "item ?T ([1, 1] @ [1]) = item (pixel_data demo_image) [1, 1]"
    using channel_composer[OF run_collapse x demo_workspace_wf ne hd] aux ib by blast
  have v2: "item (pixel_data demo_image) [1, 1] = Some 5"
    by (simp add: item_def in_bounds_def demo_image_def)
  have x3: "get_image demo_volume_workspace (x_name ?s3) = Inr demo_volume"
    by (simp add: get_image_def demo_volume_workspace_def default_settings_def)
  have n3: "get_image demo_volume_workspace (nuclei_image ?s3) = Inr demo_volume_nuclei"
    by (simp add: get_image_def demo_volume_workspace_def default_settings_def)
  have ne3: "inference_calls (trace_of ?R3) \<noteq> []" by code_simp
  have hd3: "hd (inference_calls (trace_of ?R3)) = (?T3, (2, 3))" by code_simp
  have ib3: "in_bounds (shape (pixel_data demo_volume)) (0 # [1, 1])"
    by (simp add: in_bounds_def demo_volume_def)
  have aux3: "supply_nuclei ?s3 \<and> mode ?s3 \<noteq> ''nuclei''" "do_3D ?s3"
    by (simp_all add: default_settings_def)
  have p3: "item ?T3 (0 # 2 # [1, 1]) = item (pixel_data demo_volume_nuclei) (0 # [1, 1])"
    using channel_composer[OF run_collapse x3 demo_volume_workspace_wf ne3 hd3] aux3 ib3 n3
    by auto
  have v3: "item (pixel_data demo_volume_nuclei) [0, 1, 1] = Some 9"
    by (simp add: item_def in_bounds_def demo_volume_nuclei_def)
  show ?thesis using p0 hd p2 v2 hd3 p3 v3 by simp
qed

subsection \<open>Edge-mask removal and resizing of the label map\<close>

lemma on_edge_iff:
  assumes "length idx = length s"
  shows "on_edge s idx \<longleftrightarrow> (\<exists>d<length s. idx ! d = 0 \<or> Suc (idx ! d) = s ! d)"
  using assms by (auto simp: on_edge_def list_ex_iff set_zip)

lemma in_bounds_length: "in_bounds s idx \<Longrightarrow> length idx = length s"
  by (simp add: in_bounds_def list_all2_lengthD)

lemma zip_indices_data:
  assumes "wf_array a"
  shows "(idx, v) \<in> set (zip (indices (shape a)) (data a))
         \<longleftrightarrow> in_bounds (shape a) idx \<and> item a idx = Some v"
proof
  assume "(idx, v) \<in> set (zip (indices (shape a)) (data a))"
  then obtain k where k: "k < prod_list (shape a)" "indices (shape a) ! k = idx" "data a ! k = v"
    using assms by (auto simp: set_zip wf_array_def length_indices)
  then have "idx \<in> set (indices (shape a))" by (auto simp: length_indices)
  then have ib: "in_bounds (shape a) idx" by (simp add: set_indices)
  have "ravel (shape a) idx = k" using ravel_indices[OF k(1)] k(2) by simp
  then show "in_bounds (shape a) idx \<and> item a idx = Some v"
    using ib k(3) by (simp add: item_def)
next
  assume h: "in_bounds (shape a) idx \<and> item a idx = Some v"
  then have ib: "in_bounds (shape a) idx" by simp
  with h have v: "data a ! ravel (shape a) idx = v" by (simp add: item_def)
  have "ravel (shape a) idx < prod_list (shape a)" by (rule ravel_less[OF ib])
  moreover have "indices (shape a) ! ravel (shape a) idx = idx" by (rule indices_ravel[OF ib])
  ultimately show "(idx, v) \<in> set (zip (indices (shape a)) (data a))"
    using assms v
    by (auto simp: set_zip wf_array_def length_indices
        intro!: exI[of _ "ravel (shape a) idx"])
qed

lemma edge_labels_iff:
  assumes "wf_array a"
  shows "v \<in> set (edge_labels a) \<longleftrightarrow>
         (\<exists>idx. item a idx = Some v
            \<and> (\<exists>d<length (shape a). idx ! d = 0 \<or> Suc (idx ! d) = shape a ! d))"
proof -
  have "v \<in> set (edge_labels a) \<longleftrightarrow>
        (\<exists>idx. (idx, v) \<in> set (zip (indices (shape a)) (data a)) \<and> on_edge (shape a) idx)"
    by (force simp: edge_labels_def)
  also have "\<dots> \<longleftrightarrow> (\<exists>idx. in_bounds (shape a) idx \<and> item a idx = Some v \<and> on_edge (shape a) idx)"
    by (simp add: zip_indices_data[OF assms] conj_assoc)
  also have "\<dots> \<longleftrightarrow> (\<exists>idx. item a idx = Some v
            \<and> (\<exists>d<length (shape a). idx ! d = 0 \<or> Suc (idx ! d) = shape a ! d))"
  proof (intro iff_exI)
    fix idx
    show "(in_bounds (shape a) idx \<and> item a idx = Some v \<and> on_edge (shape a) idx)
          \<longleftrightarrow> (item a idx = Some v
            \<and> (\<exists>d<length (shape a). idx ! d = 0 \<or> Suc (idx ! d) = shape a ! d))"
    proof (cases "in_bounds (shape a) idx")
      case True
      then show ?thesis using on_edge_iff[OF in_bounds_length[OF True]] by simp
    next
      case False
      then show ?thesis by (simp add: item_def)
    qed
  qed
  finally show ?thesis .
qed

lemma unique_inverse_nth:
  assumes "k < length vs"
  shows "unique_inverse vs ! k = int (card {t \<in> set vs. t < vs ! k})"
proof -
  have "distinct (filter (\<lambda>u. u < vs ! k) (remdups vs))" by simp
  then have "length (filter (\<lambda>u. u < vs ! k) (remdups vs))
             = card (set (filter (\<lambda>u. u < vs ! k) (remdups vs)))"
    by (rule distinct_card[symmetric])
  also have "set (filter (\<lambda>u. u < vs ! k) (remdups vs)) = {t \<in> set vs. t < vs ! k}" by auto
  finally show ?thesis using assms by (simp add: unique_inverse_def)
qed

lemma length_unique_inverse [simp]: "length (unique_inverse vs) = length vs"
  by (simp add: unique_inverse_def)

lemma length_zeroed_labels [simp]: "length (zeroed_labels a) = length (data a)"
  by (simp add: zeroed_labels_def)

lemma item_indices_nth:
  assumes "wf_array b" and "k < prod_list (shape b)"
  shows "item b (indices (shape b) ! k) = Some (data b ! k)"
proof -
  have "indices (shape b) ! k \<in> set (indices (shape b))"
    using assms(2) by (simp add: length_indices)
  then have "in_bounds (shape b) (indices (shape b) ! k)" by (simp add: set_indices)
  then show ?thesis using ravel_indices[OF assms(2)] by (simp add: item_def)
qed

lemma data_items:
  assumes "wf_array a"
  shows "v \<in> set (data a) \<longleftrightarrow> (\<exists>idx. item a idx = Some v)"
proof
  assume "v \<in> set (data a)"
  then obtain k where k: "k < length (data a)" "data a ! k = v" by (auto simp: in_set_conv_nth)
  then have "k < prod_list (shape a)" using assms by (simp add: wf_array_def)
  from item_indices_nth[OF assms this] k(2) show "\<exists>idx. item a idx = Some v" by auto
next
  assume "\<exists>idx. item a idx = Some v"
  then obtain idx where ib: "in_bounds (shape a) idx" and v: "data a ! ravel (shape a) idx = v"
    by (auto simp: item_def split: if_splits)
  have "ravel (shape a) idx < length (data a)"
    using ravel_less[OF ib] assms by (simp add: wf_array_def)
  then show "v \<in> set (data a)" using v by auto
qed

lemma item_remove_edge_masks:
  assumes "wf_array a"
  shows "item (cellpose_remove_edge_masks a) idx =
         map_option (\<lambda>v. int (card {t \<in> set (zeroed_labels a).
                                    t < (if 0 < v \<and> v \<in> set (edge_labels a) then 0 else v)}))
                    (item a idx)"
proof (cases "in_bounds (shape a) idx")
  case True
  from ravel_less[OF True] assms have r: "ravel (shape a) idx < length (data a)"
    by (simp add: wf_array_def)
  then have "zeroed_labels a ! ravel (shape a) idx =
             (if 0 < data a ! ravel (shape a) idx
                 \<and> data a ! ravel (shape a) idx \<in> set (edge_labels a)
              then 0 else data a ! ravel (shape a) idx)"
    by (simp add: zeroed_labels_def)
  then show ?thesis
    using True r unique_inverse_nth[of "ravel (shape a) idx" "zeroed_labels a"]
    by (simp add: item_def cellpose_remove_edge_masks_def)
next
  case False
  then show ?thesis by (simp add: item_def cellpose_remove_edge_masks_def)
qed

lemma wf_remove_edge_masks: "wf_array a \<Longrightarrow> wf_array (cellpose_remove_edge_masks a)"
  by (simp add: wf_array_def cellpose_remove_edge_masks_def)

lemma rank_strict_mono:
  fixes Z :: "int set"
  assumes "finite Z" and "u1 \<in> Z" and "u1 < u2"
  shows "card {t \<in> Z. t < u1} < card {t \<in> Z. t < u2}"
proof (rule psubset_card_mono)
  show "finite {t \<in> Z. t < u2}" using assms(1) by simp
  show "{t \<in> Z. t < u1} \<subset> {t \<in> Z. t < u2}" using assms(2,3) by auto
qed

lemma rank_covers:
  fixes Z :: "int set"
  assumes fin: "finite Z" and j: "j < card {t \<in> Z. t < u}"
  shows "\<exists>z \<in> Z. card {t \<in> Z. t < z} = j"
proof -
  define S where "S = {t \<in> Z. t < u}"
  define xs where "xs = sorted_list_of_set S"
  have fS: "finite S" using fin by (simp add: S_def)
  have sx: "set xs = S" "sorted xs" "distinct xs" "length xs = card S"
    using fS by (simp_all add: xs_def)
  have jl: "j < length xs" using j sx(4) by (simp add: S_def)
  have strict: "sorted_wrt (<) xs" using sx(2,3) by (simp add: strict_sorted_iff)
  have zS: "xs ! j \<in> S" using jl sx(1) by (metis nth_mem)
  then have zZ: "xs ! j \<in> Z" and zu: "xs ! j < u" by (simp_all add: S_def)
  have "{t \<in> Z. t < xs ! j} = {t \<in> S. t < xs ! j}" using zu by (auto simp: S_def)
  also have "\<dots> = set (take j xs)"
  proof
    show "{t \<in> S. t < xs ! j} \<subseteq> set (take j xs)"
    proof
      fix t assume "t \<in> {t \<in> S. t < xs ! j}"
      then have "t \<in> set xs" "t < xs ! j" using sx(1) by simp_all
      then obtain i where i: "i < length xs" "xs ! i = t" by (auto simp: in_set_conv_nth)
      have "i < j"
      proof (rule ccontr)
        assume "\<not> i < j"
        then have "j \<le> i" by simp
        then have "xs ! j \<le> xs ! i" using sx(2) i(1) by (simp add: sorted_nth_mono)
        then show False using \<open>t < xs ! j\<close> i(2) by simp
      qed
      then show "t \<in> set (take j xs)" using i jl by (auto simp: in_set_conv_nth)
    qed
    show "set (take j xs) \<subseteq> {t \<in> S. t < xs ! j}"
    proof
      fix t assume "t \<in> set (take j xs)"
      then obtain i where i: "i < j" "xs ! i = t" using jl by (auto simp: in_set_conv_nth)
      have "xs ! i < xs ! j" by (rule sorted_wrt_nth_less[OF strict i(1) jl])
      moreover have "xs ! i \<in> S" using i(1) jl sx(1) by (metis nth_mem order.strict_trans)
      ultimately show "t \<in> {t \<in> S. t < xs ! j}" using i(2) by simp
    qed
  qed
  finally have "card {t \<in> Z. t < xs ! j} = card (set (take j xs))" by simp
  also have "\<dots> = length (take j xs)" using sx(3) by (intro distinct_card) simp
  also have "\<dots> = j" using jl by simp
  finally show ?thesis using zZ by blast
qed

lemma shape_remove_edge_masks [simp]:
  "shape (cellpose_remove_edge_masks a) = shape a"
  by (simp add: cellpose_remove_edge_masks_def)

lemma nearest_less:
  assumes "i < n" and "0 < m"
  shows "nearest n m i < m"
proof -
  have "2 * i + 1 < 2 * n" using assms(1) by simp
  then have "(2 * i + 1) * m < (2 * n) * m" using assms(2) by (simp only: mult_less_cancel2)
  then have "(2 * i + 1) * m < m * (2 * n)" by (simp add: mult.commute)
  then show ?thesis
    unfolding nearest_def using assms(1) by (intro iffD2[OF div_less_iff_less_mult]) simp_all
qed

lemma nearest_in_bounds:
  assumes ib: "in_bounds target idx"
    and len: "length target = length s"
    and pos: "prod_list s \<noteq> 0"
  shows "in_bounds s (map (\<lambda>(i, n, m). nearest n m i) (zip idx (zip target s)))"
proof -
  have li: "length idx = length target" by (rule in_bounds_length[OF ib])
  have lt: "idx ! d < target ! d" if "d < length target" for d
    using ib that by (simp add: in_bounds_def list_all2_conv_all_nth)
  have m: "0 < s ! d" if "d < length s" for d
  proof -
    have "s ! d \<in> set s" using that by simp
    then show ?thesis using pos by (cases "s ! d = 0") (auto simp: prod_list_zero_iff)
  qed
  show ?thesis
    unfolding in_bounds_def list_all2_conv_all_nth
    using li len lt m by (auto intro: nearest_less)
qed

lemma resize_nearest_props:
  assumes "resize_nearest a target = Inr b"
  shows "shape b = target"
    and "wf_array b"
    and "set (data b) \<subseteq> set (data a)"
    and "in_bounds target idx \<Longrightarrow>
           item b idx = item a (map (\<lambda>(i, n, m). nearest n m i) (zip idx (zip target (shape a))))"
proof -
  from assms have len: "length target = length (shape a)"
    and wa: "length (data a) = prod_list (shape a)"
    and z: "prod_list (shape a) = 0 \<longrightarrow> prod_list target = 0"
    and b: "b = \<lparr>shape = target,
                data = map (\<lambda>idx. data a ! ravel (shape a)
                                   (map (\<lambda>(i, n, m). nearest n m i) (zip idx (zip target (shape a)))))
                           (indices target)\<rparr>"
    by (auto simp: resize_nearest_def split: if_splits)
  show sb: "shape b = target" by (simp add: b)
  show wb: "wf_array b" by (simp add: b wf_array_def length_indices)
  show "set (data b) \<subseteq> set (data a)"
  proof (cases "prod_list (shape a) = 0")
    case True
    then have "indices target = []" using z length_indices[of target] by simp
    then show ?thesis by (simp add: b)
  next
    case False
    have "data a ! ravel (shape a)
            (map (\<lambda>(i, n, m). nearest n m i) (zip idx (zip target (shape a)))) \<in> set (data a)"
      if "idx \<in> set (indices target)" for idx
    proof -
      from that have "in_bounds target idx" by (simp add: set_indices)
      from ravel_less[OF nearest_in_bounds[OF this len False]] wa show ?thesis by simp
    qed
    then show ?thesis by (auto simp: b)
  qed
  show "item b idx = item a (map (\<lambda>(i, n, m). nearest n m i) (zip idx (zip target (shape a))))"
    if ib: "in_bounds target idx"
  proof -
    have nz: "prod_list (shape a) \<noteq> 0"
    proof
      assume "prod_list (shape a) = 0"
      with z have "prod_list target = 0" by simp
      with ravel_less[OF ib] show False by simp
    qed
    have ib': "in_bounds (shape a) (map (\<lambda>(i, n, m). nearest n m i) (zip idx (zip target (shape a))))"
      by (rule nearest_in_bounds[OF ib len nz])
    have r: "ravel target idx < length (indices target)"
      using ravel_less[OF ib] by (simp add: length_indices)
    show ?thesis
      using ib ib' r indices_ravel[OF ib] by (simp add: item_def b)
  qed
qed

lemma publish_objects:
  assumes "publish env s x ws y flows = (r, ws')"
  shows "objects_added ws' = objects_added ws @
           [(y_name s, \<lparr>segmented = y, objects_parent_image = parent_image x\<rparr>)]"
  using assms
  by (auto simp: publish_def Let_def split: if_splits sum.splits list.splits)

lemma run_published:
  assumes run: "run env s st ws = (r, st', ws', evs)"
    and pub: "objects_added ws' \<noteq> objects_added ws"
  shows "\<exists>x x_data channels an u ev1 ev2 y flows inp.
           get_image ws (x_name s) = Inr x
         \<and> compose s ws x = Inr (x_data, channels)
         \<and> load_models env s st = (Inr u, st', ev1)
         \<and> infer env s st' x x_data channels (resolve_diameter s) an = (Inr (y, flows, inp), ev2)
         \<and> evs = ev1 @ ev2 @ (if use_gpu s then [Empty_cache] else [])
         \<and> objects_added ws' = objects_added ws @
              [(y_name s, \<lparr>segmented = y, objects_parent_image = parent_image x\<rparr>)]"
proof (cases "get_image ws (x_name s)")
  case (Inl e) then show ?thesis using assms by (simp add: run_def)
next
  case x: (Inr x)
  show ?thesis
  proof (cases "anisotropy_of s x")
    case (Inl e) then show ?thesis using assms x by (simp add: run_def)
  next
    case an: (Inr an)
    show ?thesis
    proof (cases "multichannel x")
      case True then show ?thesis using assms x an by (simp add: run_def)
    next
      case mc: False
      show ?thesis
      proof (cases "compose s ws x")
        case (Inl e) then show ?thesis using assms x an mc by (simp add: run_def)
      next
        case (Inr p)
        then obtain x_data channels where co: "compose s ws x = Inr (x_data, channels)"
          by (cases p) simp
        obtain r1 st1 ev1 where lm: "load_models env s st = (r1, st1, ev1)"
          by (cases "load_models env s st")
        show ?thesis
        proof (cases r1)
          case (Inl e) then show ?thesis using assms x an mc co lm by (simp add: run_def)
        next
          case u: (Inr u)
          obtain r2 ev2 where inf: "infer env s st1 x x_data channels (resolve_diameter s) an = (r2, ev2)"
            by (cases "infer env s st1 x x_data channels (resolve_diameter s) an")
          show ?thesis
          proof (cases r2)
            case (Inl e)
            then show ?thesis using assms x an mc co lm u inf by (simp add: run_def)
          next
            case (Inr q)
            obtain y flows inp where q: "q = (y, flows, inp)" by (cases q) auto
            obtain r3 ws3 where pb: "publish env s x ws y flows = (r3, ws3)"
              by (cases "publish env s x ws y flows")
            have "st' = st1 \<and> ws' = ws3
                  \<and> evs = ev1 @ ev2 @ (if use_gpu s then [Empty_cache] else [])"
              using run x an mc co lm u inf Inr q pb by (simp add: run_def)
            then have "get_image ws (x_name s) = Inr x
               \<and> compose s ws x = Inr (x_data, channels)
               \<and> load_models env s st = (Inr u, st', ev1)
               \<and> infer env s st' x x_data channels (resolve_diameter s) an = (Inr (y, flows, inp), ev2)
               \<and> evs = ev1 @ ev2 @ (if use_gpu s then [Empty_cache] else [])
               \<and> objects_added ws' = objects_added ws @
                    [(y_name s, \<lparr>segmented = y, objects_parent_image = parent_image x\<rparr>)]"
              using x co lm u inf Inr q publish_objects[OF pb] by simp
            then show ?thesis by blast
          qed
        qed
      qed
    qed
  qed
qed

lemma post_process_steps:
  assumes "post_process s x y_data = Inr y"
  shows "\<exists>y_in. (if denoise s \<and> str_in ''upsample'' (denoise_type s)
                 then resize_nearest y_data (shape (pixel_data x)) else Inr y_data) = Inr y_in
              \<and> y = (if remove_edge_masks s then cellpose_remove_edge_masks y_in else y_in)"
  using assms by (auto simp: post_process_def Binary_bool_def split: sum.splits)

lemma run_published_labels:
  assumes run: "run env s st ws = (r, st', ws', evs)"
    and pub: "objects_added ws' \<noteq> objects_added ws"
  shows "\<exists>x m a y_data flows y_in.
           get_image ws (x_name s) = Inr x
         \<and> a \<in> set (model_eval_calls evs)
         \<and> model_eval env m a = Inr (y_data, flows)
         \<and> (if denoise s \<and> str_in ''upsample'' (denoise_type s)
             then resize_nearest y_data (shape (pixel_data x)) else Inr y_data) = Inr y_in
         \<and> objects_added ws' = objects_added ws @
              [(y_name s,
                \<lparr>segmented = (if remove_edge_masks s then cellpose_remove_edge_masks y_in else y_in),
                 objects_parent_image = parent_image x\<rparr>)]"
proof -
  from run_published[OF run pub]
  obtain x x_data channels an u ev1 ev2 y flows inp where
    x: "get_image ws (x_name s) = Inr x"
    and inf: "infer env s st' x x_data channels (resolve_diameter s) an = (Inr (y, flows, inp), ev2)"
    and evs: "evs = ev1 @ ev2 @ (if use_gpu s then [Empty_cache] else [])"
    and obj: "objects_added ws' = objects_added ws @
              [(y_name s, \<lparr>segmented = y, objects_parent_image = parent_image x\<rparr>)]"
    by blast
  from infer_ok[OF inf] obtain m a y_data where
    a: "model_eval_calls ev2 = [a]" and me: "model_eval env m a = Inr (y_data, flows)"
    and pp: "post_process s x y_data = Inr y"
    by blast
  from post_process_steps[OF pp] obtain y_in where
    yin: "(if denoise s \<and> str_in ''upsample'' (denoise_type s)
           then resize_nearest y_data (shape (pixel_data x)) else Inr y_data) = Inr y_in"
    and y: "y = (if remove_edge_masks s then cellpose_remove_edge_masks y_in else y_in)"
    by blast
  have "a \<in> set (model_eval_calls evs)" using a evs by simp
  then have "get_image ws (x_name s) = Inr x
         \<and> a \<in> set (model_eval_calls evs)
         \<and> model_eval env m a = Inr (y_data, flows)
         \<and> (if denoise s \<and> str_in ''upsample'' (denoise_type s)
             then resize_nearest y_data (shape (pixel_data x)) else Inr y_data) = Inr y_in
         \<and> objects_added ws' = objects_added ws @
              [(y_name s,
                \<lparr>segmented = (if remove_edge_masks s then cellpose_remove_edge_masks y_in else y_in),
                 objects_parent_image = parent_image x\<rparr>)]"
    using x me yin obj y by simp
  then show ?thesis by blast
qed

lemma remove_edge_masks_renumbers:
  assumes wf: "wf_array a" and nn: "\<forall>v\<in>set (data a). 0 \<le> v"
  shows "\<forall>idx v. item a idx = Some v
           \<and> (v = 0 \<or> (\<exists>idx'. item a idx' = Some v
                  \<and> (\<exists>d<length (shape a). idx' ! d = 0 \<or> Suc (idx' ! d) = shape a ! d)))
           \<longrightarrow> item (cellpose_remove_edge_masks a) idx = Some 0"
    and "\<forall>idx v. item a idx = Some v \<and> v \<noteq> 0
           \<and> \<not> (\<exists>idx'. item a idx' = Some v
                  \<and> (\<exists>d<length (shape a). idx' ! d = 0 \<or> Suc (idx' ! d) = shape a ! d))
           \<and> shape a \<noteq> []
           \<longrightarrow> (\<exists>w. item (cellpose_remove_edge_masks a) idx = Some w \<and> 0 < w)"
    and "\<forall>idx1 idx2 v1 v2 w1 w2.
           item a idx1 = Some v1 \<and> item a idx2 = Some v2
           \<and> v1 \<noteq> 0
           \<and> \<not> (\<exists>idx'. item a idx' = Some v1
                  \<and> (\<exists>d<length (shape a). idx' ! d = 0 \<or> Suc (idx' ! d) = shape a ! d))
           \<and> v2 \<noteq> 0
           \<and> \<not> (\<exists>idx'. item a idx' = Some v2
                  \<and> (\<exists>d<length (shape a). idx' ! d = 0 \<or> Suc (idx' ! d) = shape a ! d))
           \<and> item (cellpose_remove_edge_masks a) idx1 = Some w1
           \<and> item (cellpose_remove_edge_masks a) idx2 = Some w2
           \<longrightarrow> (v1 < v2) = (w1 < w2) \<and> (v1 = v2) = (w1 = w2)"
    and "\<forall>idx w. item (cellpose_remove_edge_masks a) idx = Some w \<longrightarrow>
           0 \<le> w \<and> (\<forall>u. 0 \<le> u \<and> u < w \<longrightarrow>
                        (\<exists>idx'. item (cellpose_remove_edge_masks a) idx' = Some u))"
proof -
  define T where "T = (\<lambda>v. \<exists>idx'. item a idx' = Some v
                  \<and> (\<exists>d<length (shape a). idx' ! d = 0 \<or> Suc (idx' ! d) = shape a ! d))"
  define z where "z = (\<lambda>v::int. if 0 < v \<and> T v then 0 else v)"
  define Z where "Z = set (zeroed_labels a)"
  define rank where "rank = (\<lambda>u. int (card {t \<in> Z. t < u}))"
  have el: "v \<in> set (edge_labels a) \<longleftrightarrow> T v" for v
    unfolding T_def by (rule edge_labels_iff[OF wf])
  have zl: "zeroed_labels a = map z (data a)"
    by (simp add: zeroed_labels_def z_def el)
  have Zim: "Z = z ` set (data a)" by (simp add: Z_def zl)
  have fin: "finite Z" by (simp add: Z_def)
  have out: "item (cellpose_remove_edge_masks a) idx = map_option (\<lambda>v. rank (z v)) (item a idx)"
    for idx
    unfolding item_remove_edge_masks[OF wf] rank_def z_def Z_def el ..
  have inZ: "z v \<in> Z" if "item a idx = Some v" for idx v
    using that data_items[OF wf, of v] by (auto simp: Zim)
  have vnn: "0 \<le> v" if "item a idx = Some v" for idx v
    using that data_items[OF wf, of v] nn by auto
  have Znn: "0 \<le> t" if "t \<in> Z" for t
    using that nn by (auto simp: Zim z_def)
  have rank0: "rank 0 = 0"
  proof -
    have e: "{t \<in> Z. t < 0} = {}" using Znn by fastforce
    show ?thesis unfolding rank_def e by simp
  qed
  have mono: "rank u1 < rank u2" if "u1 \<in> Z" "u1 < u2" for u1 u2
    unfolding rank_def using rank_strict_mono[OF fin that] by simp
  show A: "\<forall>idx v. item a idx = Some v
           \<and> (v = 0 \<or> (\<exists>idx'. item a idx' = Some v
                  \<and> (\<exists>d<length (shape a). idx' ! d = 0 \<or> Suc (idx' ! d) = shape a ! d)))
           \<longrightarrow> item (cellpose_remove_edge_masks a) idx = Some 0"
  proof (intro allI impI)
    fix idx v
    assume h: "item a idx = Some v
           \<and> (v = 0 \<or> (\<exists>idx'. item a idx' = Some v
                  \<and> (\<exists>d<length (shape a). idx' ! d = 0 \<or> Suc (idx' ! d) = shape a ! d)))"
    then have v: "item a idx = Some v" and c: "v = 0 \<or> T v" by (simp_all add: T_def)
    have "z v = 0" using c vnn[OF v] by (auto simp: z_def)
    then show "item (cellpose_remove_edge_masks a) idx = Some 0"
      using v rank0 by (simp add: out)
  qed
  show "\<forall>idx v. item a idx = Some v \<and> v \<noteq> 0
           \<and> \<not> (\<exists>idx'. item a idx' = Some v
                  \<and> (\<exists>d<length (shape a). idx' ! d = 0 \<or> Suc (idx' ! d) = shape a ! d))
           \<and> shape a \<noteq> []
           \<longrightarrow> (\<exists>w. item (cellpose_remove_edge_masks a) idx = Some w \<and> 0 < w)"
  proof (intro allI impI)
    fix idx v
    assume h: "item a idx = Some v \<and> v \<noteq> 0
           \<and> \<not> (\<exists>idx'. item a idx' = Some v
                  \<and> (\<exists>d<length (shape a). idx' ! d = 0 \<or> Suc (idx' ! d) = shape a ! d))
           \<and> shape a \<noteq> []"
    then have v: "item a idx = Some v" and v0: "v \<noteq> 0" and nt: "\<not> T v" and ne: "shape a \<noteq> []"
      by (simp_all add: T_def)
    have zv: "z v = v" using nt by (simp add: z_def)
    have vpos: "0 < v" using vnn[OF v] v0 by simp
    have ib: "in_bounds (shape a) idx" using v by (simp add: item_def split: if_splits)
    define idx0 where "idx0 = replicate (length (shape a)) (0::nat)"
    have pos: "0 < shape a ! d" if "d < length (shape a)" for d
      using ib that by (auto simp: in_bounds_def list_all2_conv_all_nth)
    have ib0: "in_bounds (shape a) idx0"
      using pos by (simp add: in_bounds_def list_all2_conv_all_nth idx0_def)
    then obtain v0' where v0': "item a idx0 = Some v0'" by (simp add: item_def)
    have edge0: "\<exists>d<length (shape a). idx0 ! d = 0 \<or> Suc (idx0 ! d) = shape a ! d"
      using ne by (intro exI[of _ 0]) (simp add: idx0_def)
    have "z v0' = 0"
    proof (cases "v0' = 0")
      case True then show ?thesis by (simp add: z_def)
    next
      case False
      then have "0 < v0'" using vnn[OF v0'] by simp
      moreover have "T v0'" unfolding T_def using v0' edge0 by blast
      ultimately show ?thesis by (simp add: z_def)
    qed
    then have "0 \<in> Z" using inZ[OF v0'] by simp
    from mono[OF this vpos] rank0 have "0 < rank v" by simp
    then show "\<exists>w. item (cellpose_remove_edge_masks a) idx = Some w \<and> 0 < w"
      using v zv by (simp add: out)
  qed
  show "\<forall>idx1 idx2 v1 v2 w1 w2.
           item a idx1 = Some v1 \<and> item a idx2 = Some v2
           \<and> v1 \<noteq> 0
           \<and> \<not> (\<exists>idx'. item a idx' = Some v1
                  \<and> (\<exists>d<length (shape a). idx' ! d = 0 \<or> Suc (idx' ! d) = shape a ! d))
           \<and> v2 \<noteq> 0
           \<and> \<not> (\<exists>idx'. item a idx' = Some v2
                  \<and> (\<exists>d<length (shape a). idx' ! d = 0 \<or> Suc (idx' ! d) = shape a ! d))
           \<and> item (cellpose_remove_edge_masks a) idx1 = Some w1
           \<and> item (cellpose_remove_edge_masks a) idx2 = Some w2
           \<longrightarrow> (v1 < v2) = (w1 < w2) \<and> (v1 = v2) = (w1 = w2)"
  proof (intro allI impI)
    fix idx1 idx2 v1 v2 w1 w2
    assume h: "item a idx1 = Some v1 \<and> item a idx2 = Some v2
           \<and> v1 \<noteq> 0
           \<and> \<not> (\<exists>idx'. item a idx' = Some v1
                  \<and> (\<exists>d<length (shape a). idx' ! d = 0 \<or> Suc (idx' ! d) = shape a ! d))
           \<and> v2 \<noteq> 0
           \<and> \<not> (\<exists>idx'. item a idx' = Some v2
                  \<and> (\<exists>d<length (shape a). idx' ! d = 0 \<or> Suc (idx' ! d) = shape a ! d))
           \<and> item (cellpose_remove_edge_masks a) idx1 = Some w1
           \<and> item (cellpose_remove_edge_masks a) idx2 = Some w2"
    then have v1: "item a idx1 = Some v1" and v2: "item a idx2 = Some v2"
      and n1: "\<not> T v1" and n2: "\<not> T v2"
      and o1: "item (cellpose_remove_edge_masks a) idx1 = Some w1"
      and o2: "item (cellpose_remove_edge_masks a) idx2 = Some w2"
      by (simp_all add: T_def)
    have z1: "z v1 = v1" and z2: "z v2 = v2" using n1 n2 by (simp_all add: z_def)
    have w1: "w1 = rank v1" and w2: "w2 = rank v2"
      using o1 o2 v1 v2 z1 z2 by (simp_all add: out)
    have i1: "v1 \<in> Z" and i2: "v2 \<in> Z" using inZ[OF v1] inZ[OF v2] z1 z2 by simp_all
    have lt: "v1 < v2 \<Longrightarrow> w1 < w2" using mono[OF i1] w1 w2 by simp
    have gt: "v2 < v1 \<Longrightarrow> w2 < w1" using mono[OF i2] w1 w2 by simp
    have eq: "v1 = v2 \<Longrightarrow> w1 = w2" using w1 w2 by simp
    show "(v1 < v2) = (w1 < w2) \<and> (v1 = v2) = (w1 = w2)"
      using lt gt eq by (cases v1 v2 rule: linorder_cases) auto
  qed
  show "\<forall>idx w. item (cellpose_remove_edge_masks a) idx = Some w \<longrightarrow>
           0 \<le> w \<and> (\<forall>u. 0 \<le> u \<and> u < w \<longrightarrow>
                        (\<exists>idx'. item (cellpose_remove_edge_masks a) idx' = Some u))"
  proof (intro allI impI conjI)
    fix idx w
    assume o: "item (cellpose_remove_edge_masks a) idx = Some w"
    then obtain v where v: "item a idx = Some v" and w: "w = rank (z v)"
      by (auto simp: out)
    show "0 \<le> w" by (simp add: w rank_def)
    fix u assume u: "0 \<le> u \<and> u < w"
    then have "u < int (card {t \<in> Z. t < z v})" "0 \<le> u" using w by (simp_all add: rank_def)
    then have "nat u < card {t \<in> Z. t < z v}" by linarith
    from rank_covers[OF fin this] obtain z' where z': "z' \<in> Z" "card {t \<in> Z. t < z'} = nat u"
      by blast
    then have ru: "rank z' = u" using u by (simp add: rank_def)
    from z'(1) obtain v' where "v' \<in> set (data a)" "z v' = z'" by (auto simp: Zim)
    then obtain idx' where "item a idx' = Some v'" using data_items[OF wf, of v'] by auto
    then have "item (cellpose_remove_edge_masks a) idx' = Some u"
      using \<open>z v' = z'\<close> ru by (simp add: out)
    then show "\<exists>idx'. item (cellpose_remove_edge_masks a) idx' = Some u" ..
  qed
qed

text \<open>Claim C5, as stated, fails: with edge-mask removal on, the interior object 4 of
  the reference label map is published as object 1, and in the wider label map, whose
  object 2 touches the boundary and is removed, the interior object 3 is published as
  object 2: an interior object does not keep its identity, and the identity of a removed
  object reappears.\<close>

theorem edge_mask_identity_counterexample:
  "remove_edge_masks default_settings
   \<and> item demo_labels [0, 0] = Some 7
   \<and> item demo_labels [1, 1] = Some 4
   \<and> map (segmented \<circ> snd) (objects_added (workspace_of (run (demo_provider demo_labels)
         default_settings init demo_workspace)))
       = [\<lparr>shape = [3, 3], data = [0, 0, 0, 0, 1, 0, 0, 0, 0]\<rparr>]
   \<and> item demo_wide_labels [0, 0] = Some 2
   \<and> item demo_wide_labels [1, 3] = Some 3
   \<and> map (segmented \<circ> snd) (objects_added (workspace_of (run (demo_provider demo_wide_labels)
         default_settings init demo_wide_workspace)))
       = [\<lparr>shape = [4, 5],
           data = [0, 0, 0, 0, 0,
                   0, 1, 0, 2, 0,
                   0, 1, 0, 2, 0,
                   0, 0, 0, 0, 0]\<rparr>]"
  by code_simp

text \<open>Claim C5, amended. In every run that publishes a label map, the map published is the
  label map after inference (resized first, on the upsample path, to the shape of the
  primary image) with edge-mask removal applied if and only if the remove-edge-masks
  setting is on; when the setting is off the map is published unchanged by this step.
  When applied to a well-formed map of non-negative labels, the shape is kept, every
  background pixel and every pixel of an object that has a pixel on a boundary face (an
  index that is 0 or the last along some axis) is background in the result, and the
  remaining objects are renumbered: each keeps its pixels under a positive label, two such
  pixels carry equal labels in the result exactly when they did before and the order of
  their labels is kept, and the labels of the result are consecutive from 0, so that an
  object's identity can change and the identity of a removed object can be taken over.\<close>

theorem edge_mask_removal_renumbers_survivors:
  assumes run: "run env s st ws = (r, st', ws', evs)"
    and pub: "objects_added ws' \<noteq> objects_added ws"
  shows "\<exists>x m a y_data flows y_in y_out.
           get_image ws (x_name s) = Inr x
         \<and> a \<in> set (model_eval_calls evs)
         \<and> model_eval env m a = Inr (y_data, flows)
         \<and> (if denoise s \<and> str_in ''upsample'' (denoise_type s)
             then resize_nearest y_data (shape (pixel_data x)) else Inr y_data) = Inr y_in
         \<and> objects_added ws' = objects_added ws @
              [(y_name s, \<lparr>segmented = y_out, objects_parent_image = parent_image x\<rparr>)]
         \<and> (\<not> remove_edge_masks s \<longrightarrow> y_out = y_in)
         \<and> (remove_edge_masks s \<longrightarrow>
              y_out = cellpose_remove_edge_masks y_in \<and> shape y_out = shape y_in)
         \<and> (remove_edge_masks s \<and> wf_array y_in \<and> (\<forall>v\<in>set (data y_in). 0 \<le> v) \<longrightarrow>
              (\<forall>idx v. item y_in idx = Some v
                 \<and> (v = 0 \<or> (\<exists>idx'. item y_in idx' = Some v
                        \<and> (\<exists>d<length (shape y_in). idx' ! d = 0 \<or> Suc (idx' ! d) = shape y_in ! d)))
                 \<longrightarrow> item y_out idx = Some 0)
            \<and> (\<forall>idx v. item y_in idx = Some v \<and> v \<noteq> 0
                 \<and> \<not> (\<exists>idx'. item y_in idx' = Some v
                        \<and> (\<exists>d<length (shape y_in). idx' ! d = 0 \<or> Suc (idx' ! d) = shape y_in ! d))
                 \<and> shape y_in \<noteq> []
                 \<longrightarrow> (\<exists>w. item y_out idx = Some w \<and> 0 < w))
            \<and> (\<forall>idx1 idx2 v1 v2 w1 w2.
                 item y_in idx1 = Some v1 \<and> item y_in idx2 = Some v2
                 \<and> v1 \<noteq> 0
                 \<and> \<not> (\<exists>idx'. item y_in idx' = Some v1
                        \<and> (\<exists>d<length (shape y_in). idx' ! d = 0 \<or> Suc (idx' ! d) = shape y_in ! d))
                 \<and> v2 \<noteq> 0
                 \<and> \<not> (\<exists>idx'. item y_in idx' = Some v2
                        \<and> (\<exists>d<length (shape y_in). idx' ! d = 0 \<or> Suc (idx' ! d) = shape y_in ! d))
                 \<and> item y_out idx1 = Some w1 \<and> item y_out idx2 = Some w2
                 \<longrightarrow> (v1 < v2) = (w1 < w2) \<and> (v1 = v2) = (w1 = w2))
            \<and> (\<forall>idx w. item y_out idx = Some w \<longrightarrow>
                 0 \<le> w \<and> (\<forall>u. 0 \<le> u \<and> u < w \<longrightarrow> (\<exists>idx'. item y_out idx' = Some u))))"
proof -
  from run_published_labels[OF run pub]
  obtain x m a y_data flows y_in where
    x: "get_image ws (x_name s) = Inr x"
    and a: "a \<in> set (model_eval_calls evs)"
    and me: "model_eval env m a = Inr (y_data, flows)"
    and yin: "(if denoise s \<and> str_in ''upsample'' (denoise_type s)
             then resize_nearest y_data (shape (pixel_data x)) else Inr y_data) = Inr y_in"
    and obj: "objects_added ws' = objects_added ws @
              [(y_name s,
                \<lparr>segmented = (if remove_edge_masks s then cellpose_remove_edge_masks y_in else y_in),
                 objects_parent_image = parent_image x\<rparr>)]"
    by blast
  define y_out where "y_out = (if remove_edge_masks s then cellpose_remove_edge_masks y_in else y_in)"
  have off: "\<not> remove_edge_masks s \<longrightarrow> y_out = y_in" by (simp add: y_out_def)
  have on: "remove_edge_masks s \<longrightarrow>
              y_out = cellpose_remove_edge_masks y_in \<and> shape y_out = shape y_in"
    by (simp add: y_out_def)
  have items: "remove_edge_masks s \<and> wf_array y_in \<and> (\<forall>v\<in>set (data y_in). 0 \<le> v) \<longrightarrow>
              (\<forall>idx v. item y_in idx = Some v
                 \<and> (v = 0 \<or> (\<exists>idx'. item y_in idx' = Some v
                        \<and> (\<exists>d<length (shape y_in). idx' ! d = 0 \<or> Suc (idx' ! d) = shape y_in ! d)))
                 \<longrightarrow> item y_out idx = Some 0)
            \<and> (\<forall>idx v. item y_in idx = Some v \<and> v \<noteq> 0
                 \<and> \<not> (\<exists>idx'. item y_in idx' = Some v
                        \<and> (\<exists>d<length (shape y_in). idx' ! d = 0 \<or> Suc (idx' ! d) = shape y_in ! d))
                 \<and> shape y_in \<noteq> []
                 \<longrightarrow> (\<exists>w. item y_out idx = Some w \<and> 0 < w))
            \<and> (\<forall>idx1 idx2 v1 v2 w1 w2.
                 item y_in idx1 = Some v1 \<and> item y_in idx2 = Some v2
                 \<and> v1 \<noteq> 0
                 \<and> \<not> (\<exists>idx'. item y_in idx' = Some v1
                        \<and> (\<exists>d<length (shape y_in). idx' ! d = 0 \<or> Suc (idx' ! d) = shape y_in ! d))
                 \<and> v2 \<noteq> 0
                 \<and> \<not> (\<exists>idx'. item y_in idx' = Some v2
                        \<and> (\<exists>d<length (shape y_in). idx' ! d = 0 \<or> Suc (idx' ! d) = shape y_in ! d))
                 \<and> item y_out idx1 = Some w1 \<and> item y_out idx2 = Some w2
                 \<longrightarrow> (v1 < v2) = (w1 < w2) \<and> (v1 = v2) = (w1 = w2))
            \<and> (\<forall>idx w. item y_out idx = Some w \<longrightarrow>
                 0 \<le> w \<and> (\<forall>u. 0 \<le> u \<and> u < w \<longrightarrow> (\<exists>idx'. item y_out idx' = Some u)))"
  proof
    assume h: "remove_edge_masks s \<and> wf_array y_in \<and> (\<forall>v\<in>set (data y_in). 0 \<le> v)"
    then have y: "y_out = cellpose_remove_edge_masks y_in" by (simp add: y_out_def)
    from h have wf: "wf_array y_in" and nn: "\<forall>v\<in>set (data y_in). 0 \<le> v" by simp_all
    note rn = remove_edge_masks_renumbers[OF wf nn]
    show "(\<forall>idx v. item y_in idx = Some v
                 \<and> (v = 0 \<or> (\<exists>idx'. item y_in idx' = Some v
                        \<and> (\<exists>d<length (shape y_in). idx' ! d = 0 \<or> Suc (idx' ! d) = shape y_in ! d)))
                 \<longrightarrow> item y_out idx = Some 0)
            \<and> (\<forall>idx v. item y_in idx = Some v \<and> v \<noteq> 0
                 \<and> \<not> (\<exists>idx'. item y_in idx' = Some v
                        \<and> (\<exists>d<length (shape y_in). idx' ! d = 0 \<or> Suc (idx' ! d) = shape y_in ! d))
                 \<and> shape y_in \<noteq> []
                 \<longrightarrow> (\<exists>w. item y_out idx = Some w \<and> 0 < w))
            \<and> (\<forall>idx1 idx2 v1 v2 w1 w2.
                 item y_in idx1 = Some v1 \<and> item y_in idx2 = Some v2
                 \<and> v1 \<noteq> 0
                 \<and> \<not> (\<exists>idx'. item y_in idx' = Some v1
                        \<and> (\<exists>d<length (shape y_in). idx' ! d = 0 \<or> Suc (idx' ! d) = shape y_in ! d))
                 \<and> v2 \<noteq> 0
                 \<and> \<not> (\<exists>idx'. item y_in idx' = Some v2
                        \<and> (\<exists>d<length (shape y_in). idx' ! d = 0 \<or> Suc (idx' ! d) = shape y_in ! d))
                 \<and> item y_out idx1 = Some w1 \<and> item y_out idx2 = Some w2
                 \<longrightarrow> (v1 < v2) = (w1 < w2) \<and> (v1 = v2) = (w1 = w2))
            \<and> (\<forall>idx w. item y_out idx = Some w \<longrightarrow>
                 0 \<le> w \<and> (\<forall>u. 0 \<le> u \<and> u < w \<longrightarrow> (\<exists>idx'. item y_out idx' = Some u)))"
      unfolding y
      apply (intro conjI)
         apply (rule rn(1))
        apply (rule rn(2))
       apply (rule rn(3))
      apply (rule rn(4))
      done
  qed
  have obj': "objects_added ws' = objects_added ws @
              [(y_name s, \<lparr>segmented = y_out, objects_parent_image = parent_image x\<rparr>)]"
    using obj by (simp add: y_out_def)
  show ?thesis
    apply (rule exI[of _ x], rule exI[of _ m], rule exI[of _ a], rule exI[of _ y_data])
    apply (rule exI[of _ flows], rule exI[of _ y_in], rule exI[of _ y_out])
    apply (intro conjI)
           apply (rule x)
          apply (rule a)
         apply (rule me)
        apply (rule yin)
       apply (rule obj')
      apply (rule off)
     apply (rule on)
    apply (rule items)
    done
qed

theorem edge_mask_removal_renumbers_survivors_witness:
  "objects_added (workspace_of (run (demo_provider demo_wide_labels) default_settings init
       demo_wide_workspace)) \<noteq> objects_added demo_wide_workspace
   \<and> remove_edge_masks default_settings
   \<and> wf_array demo_wide_labels
   \<and> list_all ((\<le>) 0) (data demo_wide_labels)
   \<and> map (segmented \<circ> snd) (objects_added (workspace_of (run (demo_provider demo_wide_labels)
         default_settings init demo_wide_workspace)))
       = [cellpose_remove_edge_masks demo_wide_labels]
   \<and> cellpose_remove_edge_masks demo_wide_labels
       = \<lparr>shape = [4, 5],
          data = [0, 0, 0, 0, 0,
                  0, 1, 0, 2, 0,
                  0, 1, 0, 2, 0,
                  0, 0, 0, 0, 0]\<rparr>
   \<and> map (segmented \<circ> snd) (objects_added (workspace_of (run (demo_provider demo_wide_labels)
         (default_settings\<lparr>remove_edge_masks := False\<rparr>) init demo_wide_workspace)))
       = [demo_wide_labels]"
proof -
  let ?R = "run (demo_provider demo_wide_labels) default_settings init demo_wide_workspace"
  have pub: "objects_added (workspace_of ?R) \<noteq> objects_added demo_wide_workspace" by code_simp
  have "map (segmented \<circ> snd) (objects_added (workspace_of ?R))
        = [cellpose_remove_edge_masks demo_wide_labels]"
    using edge_mask_removal_renumbers_survivors[OF run_collapse pub]
    by (clarsimp simp: demo_provider_def default_settings_def demo_wide_workspace_def)
  moreover have "cellpose_remove_edge_masks demo_wide_labels
       = \<lparr>shape = [4, 5],
          data = [0, 0, 0, 0, 0,
                  0, 1, 0, 2, 0,
                  0, 1, 0, 2, 0,
                  0, 0, 0, 0, 0]\<rparr>" by code_simp
  moreover have "map (segmented \<circ> snd) (objects_added (workspace_of (run (demo_provider demo_wide_labels)
         (default_settings\<lparr>remove_edge_masks := False\<rparr>) init demo_wide_workspace)))
       = [demo_wide_labels]" by code_simp
  moreover have "remove_edge_masks default_settings" by (simp add: default_settings_def)
  moreover have "wf_array demo_wide_labels" by (simp add: wf_array_def demo_wide_labels_def)
  moreover have "list_all ((\<le>) 0) (data demo_wide_labels)" by (simp add: demo_wide_labels_def)
  ultimately show ?thesis using pub by simp
qed

text \<open>Claim C7 (upsample round trip). In every run in which an upsampling denoiser
  (\<open>upsample_cyto3\<close> or \<open>upsample_nuclei\<close>) was applied and a label map is published,
  the published map has exactly the shape of the primary image: the label map returned by
  the model is resized to that shape by nearest-neighbour resampling, each element of the
  resized map being an element of the model's map (the nearest one along every axis), and
  edge-mask removal, when requested, is applied to the resized map, not before.\<close>

theorem upsample_round_trip:
  assumes run: "run env s st ws = (r, st', ws', evs)"
    and pub: "objects_added ws' \<noteq> objects_added ws"
    and den: "denoise_eval_calls evs \<noteq> []"
    and ups: "denoise_type s = ''upsample_cyto3'' \<or> denoise_type s = ''upsample_nuclei''"
  shows "\<exists>x m a y_data flows y_resized y_out.
           get_image ws (x_name s) = Inr x
         \<and> a \<in> set (model_eval_calls evs)
         \<and> model_eval env m a = Inr (y_data, flows)
         \<and> resize_nearest y_data (shape (pixel_data x)) = Inr y_resized
         \<and> y_out = (if remove_edge_masks s then cellpose_remove_edge_masks y_resized
                     else y_resized)
         \<and> objects_added ws' = objects_added ws @
              [(y_name s, \<lparr>segmented = y_out, objects_parent_image = parent_image x\<rparr>)]
         \<and> shape y_out = shape (pixel_data x)
         \<and> set (data y_resized) \<subseteq> set (data y_data)
         \<and> (\<forall>idx. in_bounds (shape (pixel_data x)) idx \<longrightarrow>
               item y_resized idx =
               item y_data (map (\<lambda>(i, n, m). nearest n m i)
                              (zip idx (zip (shape (pixel_data x)) (shape y_data)))))"
proof -
  from den obtain c where "c \<in> set (denoise_eval_calls evs)"
    by (cases "denoise_eval_calls evs") auto
  then have dn: "denoise s"
    using run_denoise_args[OF run, of "fst c" "fst (snd c)" "snd (snd c)"] by simp
  have up: "str_in ''upsample'' (denoise_type s)" using ups by auto
  from run_published_labels[OF run pub] dn up
  obtain x m a y_data flows y_in where
    x: "get_image ws (x_name s) = Inr x"
    and a: "a \<in> set (model_eval_calls evs)"
    and me: "model_eval env m a = Inr (y_data, flows)"
    and yin: "resize_nearest y_data (shape (pixel_data x)) = Inr y_in"
    and obj: "objects_added ws' = objects_added ws @
              [(y_name s,
                \<lparr>segmented = (if remove_edge_masks s then cellpose_remove_edge_masks y_in else y_in),
                 objects_parent_image = parent_image x\<rparr>)]"
    by auto
  define y_out where "y_out = (if remove_edge_masks s then cellpose_remove_edge_masks y_in else y_in)"
  note rp = resize_nearest_props[OF yin]
  have sh: "shape y_out = shape (pixel_data x)" using rp(1) by (simp add: y_out_def)
  have near: "\<forall>idx. in_bounds (shape (pixel_data x)) idx \<longrightarrow>
               item y_in idx =
               item y_data (map (\<lambda>(i, n, m). nearest n m i)
                              (zip idx (zip (shape (pixel_data x)) (shape y_data))))"
    using rp(4) by blast
  have obj': "objects_added ws' = objects_added ws @
              [(y_name s, \<lparr>segmented = y_out, objects_parent_image = parent_image x\<rparr>)]"
    using obj by (simp add: y_out_def)
  show ?thesis
    apply (rule exI[of _ x], rule exI[of _ m], rule exI[of _ a], rule exI[of _ y_data])
    apply (rule exI[of _ flows], rule exI[of _ y_in], rule exI[of _ y_out])
    apply (intro conjI)
            apply (rule x)
           apply (rule a)
          apply (rule me)
         apply (rule yin)
        apply (rule y_out_def)
       apply (rule obj')
      apply (rule sh)
     apply (rule rp(3))
    apply (rule near)
    done
qed

theorem upsample_round_trip_witness:
  "objects_added (workspace_of (run (demo_provider demo_upsampled_labels)
       (default_settings\<lparr>denoise := True, denoise_type := ''upsample_cyto3''\<rparr>) init
       demo_workspace)) \<noteq> objects_added demo_workspace
   \<and> denoise_eval_calls (trace_of (run (demo_provider demo_upsampled_labels)
       (default_settings\<lparr>denoise := True, denoise_type := ''upsample_cyto3''\<rparr>) init
       demo_workspace)) \<noteq> []
   \<and> shape demo_upsampled_labels = [6, 6]
   \<and> shape (pixel_data demo_image) = [3, 3]
   \<and> map (shape \<circ> segmented \<circ> snd) (objects_added (workspace_of
       (run (demo_provider demo_upsampled_labels)
         (default_settings\<lparr>denoise := True, denoise_type := ''upsample_cyto3''\<rparr>) init
         demo_workspace))) = [[3, 3]]
   \<and> map (segmented \<circ> snd) (objects_added (workspace_of
       (run (demo_provider demo_upsampled_labels)
         (default_settings\<lparr>denoise := True, denoise_type := ''upsample_cyto3'',
                            remove_edge_masks := False\<rparr>) init
         demo_workspace))) = [\<lparr>shape = [3, 3], data = [7, 0, 0, 0, 4, 0, 0, 0, 0]\<rparr>]
   \<and> map (segmented \<circ> snd) (objects_added (workspace_of
       (run (demo_provider demo_upsampled_labels)
         (default_settings\<lparr>denoise := True, denoise_type := ''upsample_cyto3''\<rparr>) init
         demo_workspace))) = [\<lparr>shape = [3, 3], data = [0, 0, 0, 0, 1, 0, 0, 0, 0]\<rparr>]"
proof -
  let ?s = "default_settings\<lparr>denoise := True, denoise_type := ''upsample_cyto3''\<rparr>"
  let ?R = "run (demo_provider demo_upsampled_labels) ?s init demo_workspace"
  have pub: "objects_added (workspace_of ?R) \<noteq> objects_added demo_workspace" by code_simp
  have den: "denoise_eval_calls (trace_of ?R) \<noteq> []" by code_simp
  have ups: "denoise_type ?s = ''upsample_cyto3'' \<or> denoise_type ?s = ''upsample_nuclei''"
    by simp
  have "map (shape \<circ> segmented \<circ> snd) (objects_added (workspace_of ?R)) = [[3, 3]]"
    using upsample_round_trip[OF run_collapse pub den ups]
    by (clarsimp simp: get_image_def demo_workspace_def default_settings_def demo_image_def)
  moreover have "map (segmented \<circ> snd) (objects_added (workspace_of ?R))
                 = [\<lparr>shape = [3, 3], data = [0, 0, 0, 0, 1, 0, 0, 0, 0]\<rparr>]" by code_simp
  moreover have "map (segmented \<circ> snd) (objects_added (workspace_of
       (run (demo_provider demo_upsampled_labels)
         (default_settings\<lparr>denoise := True, denoise_type := ''upsample_cyto3'',
                            remove_edge_masks := False\<rparr>) init
         demo_workspace))) = [\<lparr>shape = [3, 3], data = [7, 0, 0, 0, 4, 0, 0, 0, 0]\<rparr>]"
    by code_simp
  moreover have "shape demo_upsampled_labels = [6, 6]" "shape (pixel_data demo_image) = [3, 3]"
    by (simp_all add: demo_upsampled_labels_def demo_image_def)
  ultimately show ?thesis using pub den by simp
qed

subsection \<open>The choices of the settings and the invariant of the cache\<close>

text \<open>Among the denoisers that can be chosen, the test \<open>"upsample" in denoise_type\<close>
  of the post-processing step holds for exactly the two whose diameter is overridden; and
  a stored key always comes with a stored handle.\<close>

lemma upsampling_denoisers:
  assumes "n \<in> set DENOISER_NAMES"
  shows "str_in ''upsample'' n \<longleftrightarrow> n = ''upsample_cyto3'' \<or> n = ''upsample_nuclei''"
proof -
  from assms consider "n = ''denoise_cyto3''" | "n = ''deblur_cyto3''" | "n = ''upsample_cyto3''"
    | "n = ''denoise_nuclei''" | "n = ''deblur_nuclei''" | "n = ''upsample_nuclei''"
    unfolding DENOISER_NAMES_def by fastforce
  then show ?thesis by cases simp_all
qed

lemma sized_models_are_choices: "set SIZED_MODELS \<subseteq> set MODEL_NAMES"
  by (simp add: SIZED_MODELS_def MODEL_NAMES_def)

lemma cache_ok_init: "cache_ok init"
  by (simp add: cache_ok_def init_def)

lemma run_state:
  assumes "run env s st ws = (r, st', ws', evs)"
  shows "st' = st \<or> (\<exists>r1 ev1. load_models env s st = (r1, st', ev1))"
  using assms
  by (auto simp: run_def Let_def split: sum.splits prod.splits if_splits)

lemma run_cache_ok:
  assumes "run env s st ws = (r, st', ws', evs)" and "cache_ok st"
  shows "cache_ok st'"
  using run_state[OF assms(1)] load_models_cache_ok assms(2) by blast

end
